theory Spec2Isabelle
  imports Main "HOL-Library.Word"
begin

unbundle bit_operations_syntax

section \<open>Bytes and strings\<close>

text \<open>
  A C++ \<^verbatim>\<open>char\<close> / \<^verbatim>\<open>unsigned char\<close> is an 8-bit word; a \<^verbatim>\<open>std::string\<close> or a
  range of a \<^verbatim>\<open>boost::asio::streambuf\<close> is a list of bytes.
\<close>

type_synonym byte = "8 word"

definition bytes_of :: "string \<Rightarrow> byte list" where
  "bytes_of s = map of_char s"

section \<open>The delimiter scanner (ServerSocket.cc, match\_eol\_or\_escape)\<close>

text \<open>
  \<^verbatim>\<open>#define IAC 0xff  // Telnet Interpret As Command\<close>
\<close>

definition IAC :: byte where
  "IAC = 0xff"

text \<open>
  The \<^verbatim>\<open>while (i != end)\<close> loop of \<^verbatim>\<open>match_eol_or_escape\<close>. The arguments are the
  current value of the local \<^verbatim>\<open>telnet_mode\<close>, the offset of the iterator \<^verbatim>\<open>i\<close> from
  \<^verbatim>\<open>begin\<close>, and the bytes of the range \<^verbatim>\<open>[i, end)\<close>. The result is the pair the
  source returns: the offset of the returned iterator and the match flag.
  \<^verbatim>\<open>
    unsigned char c = *i++;
    if (IAC == c) telnet_mode = true;
    if (('\n' == c) || (0x04 == c) || (telnet_mode && (c <= 0xf0)))
        return std::make_pair(i, true);
  \<close>
\<close>

fun match_loop :: "bool \<Rightarrow> nat \<Rightarrow> byte list \<Rightarrow> nat \<times> bool" where
  "match_loop telnet_mode i [] = (i, False)"
| "match_loop telnet_mode i (c # rest) =
     (let i' = i + 1;
          telnet_mode' = (if IAC = c then True else telnet_mode)
      in if c = 0x0A \<or> c = 0x04 \<or> (telnet_mode' \<and> c \<le> 0xF0)
         then (i', True)
         else match_loop telnet_mode' i' rest)"

text \<open>
  The function itself: \<^verbatim>\<open>bool telnet_mode = false; bitter i = begin;\<close> and then the
  loop. The argument is the content of the range \<^verbatim>\<open>[begin, end)\<close>.
\<close>

definition match_eol_or_escape :: "byte list \<Rightarrow> nat \<times> bool" where
  "match_eol_or_escape buf = match_loop False 0 buf"


section \<open>The connection object and its environment\<close>

text \<open>
  Error codes of the transport (\<^verbatim>\<open>boost::asio::error\<close>), the exceptions the code throws and
  catches, and the result of an operation: it returns a value, throws, or blocks for
  ever on a socket on which nothing more arrives.
\<close>

datatype errc =
  eof | connection_reset | not_connected | broken_pipe | bad_descriptor
  | operation_aborted | other_errc nat

datatype exn = SilentException | system_error errc | AssertionException

datatype 'a outcome = Returns 'a | Throws exn | Blocks

datatype log_level = Debug | Info | Warn | Error

text \<open>
  What the socket delivers, in order: each element is the result of one low-level
  read, either some bytes or a failure with an error code.
\<close>

datatype arrival = Data "byte list" | Fail errc

text \<open>
  The members of \<^verbatim>\<open>ServerSocket\<close> (the leading underscore of the source's names is
  dropped), together with the part of the environment one connection sees: the
  inbound side of its socket (\<open>wire_in\<close>), the bytes written to it so far (\<open>sent\<close>),
  the error every write meets (\<open>write_error\<close>, \<open>None\<close> for a healthy peer), the sizes
  of the buffers obtained with \<^verbatim>\<open>std::string::resize\<close> (\<open>allocs\<close>), the entries it wrote
  to the logger (\<open>logged\<close>), and the state of the code behind the two virtual hooks
  \<^verbatim>\<open>OnConnection\<close> and \<^verbatim>\<open>OnLine\<close> (\<open>app\<close>).
\<close>

record 'u conn =
  socket :: "nat option"
  start_time :: int
  tid :: int
  status :: string
  got_first_line :: bool
  got_http_header :: bool
  got_websock_header :: bool
  do_frame_io :: bool
  url :: string
  webkey :: string
  wire_in :: "arrival list"
  sent :: "byte list"
  write_error :: "errc option"
  allocs :: "nat list"
  logged :: "(log_level \<times> string) list"
  app :: 'u

text \<open>Sequencing: the second operation runs only when the first one returns.\<close>

fun bind_io :: "'a outcome \<times> 's \<Rightarrow> ('a \<Rightarrow> 's \<Rightarrow> 'b outcome \<times> 's) \<Rightarrow> 'b outcome \<times> 's" where
  "bind_io (Returns x, c) f = f x c"
| "bind_io (Throws e, c) f = (Throws e, c)"
| "bind_io (Blocks, c) f = (Blocks, c)"

definition log_msg :: "log_level \<Rightarrow> string \<Rightarrow> 'u conn \<Rightarrow> 'u conn" where
  "log_msg lvl msg c = c\<lparr>logged := logged c @ [(lvl, msg)]\<rparr>"

subsection \<open>Reading from the socket\<close>

text \<open>
  \<^verbatim>\<open>boost::asio::read(*_socket, boost::asio::buffer(p, n))\<close> returns once exactly \<open>n\<close>
  bytes have been read, throws \<^verbatim>\<open>boost::system::system_error\<close> when a low-level read
  fails first, and blocks while nothing arrives. The bytes not asked for stay in the
  socket.
\<close>

fun gather :: "nat \<Rightarrow> arrival list \<Rightarrow> byte list outcome \<times> arrival list" where
  "gather n [] = (if n = 0 then (Returns [], []) else (Blocks, []))"
| "gather n (Fail e # arrs) =
     (if n = 0 then (Returns [], Fail e # arrs) else (Throws (system_error e), arrs))"
| "gather n (Data d # arrs) =
     (if n \<le> length d then (Returns (take n d), Data (drop n d) # arrs)
      else (case gather (n - length d) arrs of
              (Returns bs, arrs') \<Rightarrow> (Returns (d @ bs), arrs')
            | (Throws e, arrs') \<Rightarrow> (Throws e, arrs')
            | (Blocks, arrs') \<Rightarrow> (Blocks, arrs')))"

definition asio_read :: "nat \<Rightarrow> 'u conn \<Rightarrow> byte list outcome \<times> 'u conn" where
  "asio_read n c = (case gather n (wire_in c) of (r, arrs) \<Rightarrow> (r, c\<lparr>wire_in := arrs\<rparr>))"

text \<open>The amount of input outstanding on a socket; every successful read lowers it.\<close>

fun wire_size :: "arrival list \<Rightarrow> nat" where
  "wire_size [] = 0"
| "wire_size (Data d # arrs) = 1 + length d + wire_size arrs"
| "wire_size (Fail e # arrs) = 1 + wire_size arrs"

subsection \<open>Writing to the socket (ServerSocket.cc, Send)\<close>

text \<open>
  \<^verbatim>\<open>
  void ServerSocket::Send(const std::string& cmd)
  {
      OC_ASSERT(_socket, "Use of socket after it's been closed!\n");
      boost::system::error_code error;
      boost::asio::write(*_socket, boost::asio::buffer(cmd),
                         boost::asio::transfer_all(), error);
      if (error.value() != boost::system::errc::success and
          error.value() != boost::asio::error::not_connected and
          error.value() != boost::asio::error::broken_pipe and
          error.value() != boost::asio::error::bad_descriptor and
          error.value() != boost::asio::error::connection_reset)
          logger().warn(...);
  }
  \<close>
  The overload \<^verbatim>\<open>Send(const boost::asio::const_buffer&)\<close> that the frame codec calls is
  declared in ServerSocket.h, which is not among the sources; it is taken to write
  its bytes the way the overload above does.
\<close>

definition Send :: "byte list \<Rightarrow> 'u conn \<Rightarrow> unit outcome \<times> 'u conn" where
  "Send cmd c =
     (if socket c = None then (Throws AssertionException, c)
      else (case write_error c of
              None \<Rightarrow> (Returns (), c\<lparr>sent := sent c @ cmd\<rparr>)
            | Some error \<Rightarrow>
                (if error \<noteq> not_connected \<and> error \<noteq> broken_pipe \<and>
                    error \<noteq> bad_descriptor \<and> error \<noteq> connection_reset
                 then (Returns (), log_msg Warn ''ServerSocket::Send(): %s on thread 0x%x'' c)
                 else (Returns (), c))))"

section \<open>The WebSocket frame codec (WebSocket.cc)\<close>

subsection \<open>Byte order\<close>

text \<open>
  \<^verbatim>\<open>ntohs\<close> and \<^verbatim>\<open>ntohl\<close> applied to an integer that was read from the wire into memory
  give the big-endian value of the bytes read, on every host.
\<close>

definition ntohs :: "byte list \<Rightarrow> 16 word" where
  "ntohs bs = push_bit 8 (ucast (bs ! 0)) OR ucast (bs ! 1)"

definition ntohl :: "byte list \<Rightarrow> 32 word" where
  "ntohl bs = push_bit 24 (ucast (bs ! 0)) OR push_bit 16 (ucast (bs ! 1)) OR
              push_bit 8 (ucast (bs ! 2)) OR ucast (bs ! 3)"

text \<open>
  A \<^verbatim>\<open>uint32_t\<close> read from or written to memory without conversion, on a little-endian
  host (x86-64, AArch64 Linux): the byte at the lowest address is the least
  significant one. The unmasking code below depends on this for the mask.
\<close>

definition load32 :: "byte list \<Rightarrow> nat \<Rightarrow> 32 word" where
  "load32 mem i = ucast (mem ! i) OR push_bit 8 (ucast (mem ! (i + 1))) OR
                  push_bit 16 (ucast (mem ! (i + 2))) OR push_bit 24 (ucast (mem ! (i + 3)))"

definition store32 :: "byte list \<Rightarrow> nat \<Rightarrow> 32 word \<Rightarrow> byte list" where
  "store32 mem i w = mem[i := ucast w, i + 1 := ucast (drop_bit 8 w),
                         i + 2 := ucast (drop_bit 16 w), i + 3 := ucast (drop_bit 24 w)]"

subsection \<open>get\_websocket\_data\<close>

text \<open>
  The bulk loop
  \<^verbatim>\<open>
  uint32_t *dp = (uint32_t *) data;
  int64_t i=0;
  while (i <= paylen-4) { *dp = *dp ^ mask; ++dp; i += 4; }
  \<close>
  with \<open>i\<close> and \<open>paylen\<close> signed, as in the source (\<open>paylen - 4\<close> is negative for a
  payload shorter than four bytes). It returns the final \<open>i\<close> and the buffer.
\<close>

function ws_unmask_bulk :: "32 word \<Rightarrow> int \<Rightarrow> int \<Rightarrow> byte list \<Rightarrow> int \<times> byte list" where
  "ws_unmask_bulk msk paylen i data =
     (if i \<le> paylen - 4
      then ws_unmask_bulk msk paylen (i + 4)
             (store32 data (nat i) (load32 data (nat i) XOR msk))
      else (i, data))"
  by pat_completeness auto
termination
  by (relation "measure (\<lambda>(msk, paylen, i, data). nat (paylen - i))") auto

declare ws_unmask_bulk.simps [simp del]

text \<open>
  \<^verbatim>\<open>
  for (unsigned int j=0; j<paylen%4; j++)
      data[i+j] = data[i+j] ^ ((mask >> (8*j)) & 0xff);
  \<close>
  The right-hand side is computed in 32 bits and stored into a \<^verbatim>\<open>char\<close>, which keeps
  its low eight bits.
\<close>

definition ws_unmask_tail :: "32 word \<Rightarrow> int \<Rightarrow> int \<Rightarrow> byte list \<Rightarrow> byte list" where
  "ws_unmask_tail msk paylen i data =
     foldl (\<lambda>data j. data[nat i + j :=
                ucast ((ucast (data ! (nat i + j)) :: 32 word) XOR (drop_bit (8 * j) msk AND 0xff))])
       data [0..<nat (paylen mod 4)]"

text \<open>
  The second half of \<^verbatim>\<open>get_websocket_data\<close>, from the check of the mask bit to the
  end; \<open>maskbit\<close> and \<open>paylen\<close> are the locals the first half has computed.
  \<^verbatim>\<open>
  if (not maskbit) { logger().warn("WebSocket received unmasked data!"); throw SilentException(); }
  uint32_t mask;
  boost::asio::read(*_socket, boost::asio::buffer(&mask, 4));
  std::string blob;
  blob.resize(paylen+1);
  char* data = blob.data();
  boost::asio::read(*_socket, boost::asio::buffer(data, paylen));
  ... unmask ...
  data[paylen] = 0x0;
  return blob;
  \<close>
\<close>

definition ws_payload :: "bool \<Rightarrow> nat \<Rightarrow> 'u conn \<Rightarrow> byte list outcome \<times> 'u conn" where
  "ws_payload maskbit paylen c =
     (if \<not> maskbit
      then (Throws SilentException, log_msg Warn ''WebSocket received unmasked data!'' c)
      else bind_io (asio_read 4 c) (\<lambda>mk c1.
        let msk = load32 mk 0;
            c2 = c1\<lparr>allocs := allocs c1 @ [paylen + 1]\<rparr>
        in bind_io (asio_read paylen c2) (\<lambda>payload c3.
             let blob = payload @ [0];
                 (i, data) = ws_unmask_bulk msk (int paylen) 0 blob;
                 data = ws_unmask_tail msk (int paylen) i data;
                 data = data[paylen := 0]
             in (Returns data, c3))))"

text \<open>
  The function, from its start to the computation of \<open>paylen\<close>:
  \<^verbatim>\<open>
  unsigned char mpay;
  boost::asio::read(*_socket, boost::asio::buffer(&mpay, 1));
  bool maskbit = mpay & 0x80;
  int8_t paybyte = mpay & 0x7f;
  int64_t paylen = paybyte;
  if (126 == paybyte) { uint16_t shore; read(2); paylen = ntohs(shore); }
  else if (127 == paybyte)
  {
      uint32_t lunglo, lunghi; read(&lunghi, 4); read(&lunglo, 4);
      uint64_t lung = ntohl(lunghi);
      lung = lung << 32 | ntohl(lunglo);
      if ((1UL << 40) < lung)
      { logger().warn("Websocket insane length %lu\n", lung); throw SilentException(); }
      paylen = lung;
  }
  \<close>
  (\<^verbatim>\<open>1UL\<close> is 64 bits wide, as on every 64-bit Linux.)
\<close>

definition get_websocket_data :: "'u conn \<Rightarrow> byte list outcome \<times> 'u conn" where
  "get_websocket_data c =
     bind_io (asio_read 1 c) (\<lambda>b c1.
       let mpay = b ! 0;
           maskbit = (mpay AND 0x80 \<noteq> 0);
           paybyte = mpay AND 0x7f
       in if 126 = paybyte
          then bind_io (asio_read 2 c1) (\<lambda>shore c2. ws_payload maskbit (unat (ntohs shore)) c2)
          else if 127 = paybyte
          then bind_io (asio_read 4 c1) (\<lambda>lunghi c2.
                 bind_io (asio_read 4 c2) (\<lambda>lunglo c3.
                   let lung = (ucast (ntohl lunghi) :: 64 word);
                       lung = push_bit 32 lung OR ucast (ntohl lunglo)
                   in if push_bit 40 1 < lung
                      then (Throws SilentException,
                            log_msg Warn ''Websocket insane length %lu'' c3)
                      else ws_payload maskbit (unat lung) c3))
          else ws_payload maskbit (unat paybyte) c1)"

subsection \<open>send\_websocket and send\_websocket\_pong\<close>

text \<open>
  \<^verbatim>\<open>
  void ServerSocket::send_websocket_pong()
  {
      char header[2];
      header[0] = 0x8a;
      header[1] = 0;
      Send(boost::asio::const_buffer(header, 2));
  }
  \<close>
\<close>

definition send_websocket_pong :: "'u conn \<Rightarrow> unit outcome \<times> 'u conn" where
  "send_websocket_pong c = Send [0x8a, 0] c"

text \<open>
  \<^verbatim>\<open>
  size_t paylen = cmd.size();
  char header[10];
  header[0] = 0x81;
  if (paylen < 126)
  { header[1] = (char) paylen; Send(boost::asio::const_buffer(header, 2)); }
  else if (paylen < 65536)
  {
      header[1] = 126;
      header[2] = (paylen >> 8) & 0xff;
      header[3] = paylen & 0xff;
      Send(boost::asio::const_buffer(header, 4));
  }
  else
  {
      header[1] = 127;
      header[2] = (paylen >> 56) & 0xff;  ...  header[9] = paylen & 0xff;
      Send(boost::asio::const_buffer(header, 10));
  }
  Send(boost::asio::const_buffer(cmd.c_str(), paylen));
  \<close>
  \<^verbatim>\<open>size_t\<close> is a 64-bit word.
\<close>

definition send_websocket :: "byte list \<Rightarrow> 'u conn \<Rightarrow> unit outcome \<times> 'u conn" where
  "send_websocket cmd c =
     (let paylen = (of_nat (length cmd) :: 64 word);
          header0 = (0x81 :: byte)
      in bind_io
           (if paylen < 126
            then Send [header0, ucast paylen] c
            else if paylen < 65536
            then Send [header0, 126, ucast (drop_bit 8 paylen AND 0xff), ucast (paylen AND 0xff)] c
            else Send [header0, 127,
                       ucast (drop_bit 56 paylen AND 0xff), ucast (drop_bit 48 paylen AND 0xff),
                       ucast (drop_bit 40 paylen AND 0xff), ucast (drop_bit 32 paylen AND 0xff),
                       ucast (drop_bit 24 paylen AND 0xff), ucast (drop_bit 16 paylen AND 0xff),
                       ucast (drop_bit 8 paylen AND 0xff), ucast (paylen AND 0xff)] c)
           (\<lambda>_ c1. Send cmd c1))"

subsection \<open>get\_websocket\_line\<close>

text \<open>
  The reply to a ping, inside the loop of \<^verbatim>\<open>get_websocket_line\<close>:
  \<^verbatim>\<open>
  // The data read appended a null byte. Skip it.
  size_t paylen = pingd.size() - 1;
  char header[2];
  header[0] = 0x8a;
  header[1] = (char) paylen;
  Send(boost::asio::const_buffer(header, 2));
  if (0 < paylen)
      Send(boost::asio::const_buffer(pingd.data(), paylen));
  \<close>
\<close>

definition send_pong_reply :: "byte list \<Rightarrow> 'u conn \<Rightarrow> unit outcome \<times> 'u conn" where
  "send_pong_reply pingd c =
     (let paylen = length pingd - 1
      in bind_io (Send [0x8a, of_nat paylen] c)
           (\<lambda>_ c1. if 0 < paylen then Send (take paylen pingd) c1 else (Returns (), c1)))"

lemma gather_wire_size: "gather n arrs = (r, arrs') \<Longrightarrow> wire_size arrs' \<le> wire_size arrs"
proof (induction arrs arbitrary: n r arrs')
  case Nil
  then show ?case by (auto split: if_splits)
next
  case (Cons a arrs)
  show ?case
  proof (cases a)
    case (Fail e)
    with Cons.prems show ?thesis by (auto split: if_splits)
  next
    case (Data d)
    show ?thesis
    proof (cases "n \<le> length d")
      case True
      with Cons.prems Data show ?thesis by auto
    next
      case False
      obtain r2 a2 where g: "gather (n - length d) arrs = (r2, a2)"
        by (cases "gather (n - length d) arrs")
      from Cons.IH [OF g] have "wire_size a2 \<le> wire_size arrs" .
      moreover from Cons.prems Data False g have "arrs' = a2"
        by (cases r2) auto
      ultimately show ?thesis using Data by simp
    qed
  qed
qed

lemma gather_Returns:
  "gather n arrs = (Returns bs, arrs') \<Longrightarrow> length bs = n \<and> wire_size arrs' + n \<le> wire_size arrs"
proof (induction arrs arbitrary: n bs arrs')
  case Nil
  then show ?case by (auto split: if_splits)
next
  case (Cons a arrs)
  show ?case
  proof (cases a)
    case (Fail e)
    with Cons.prems show ?thesis by (auto split: if_splits)
  next
    case (Data d)
    show ?thesis
    proof (cases "n \<le> length d")
      case True
      with Cons.prems Data show ?thesis by auto
    next
      case False
      obtain r2 a2 where g: "gather (n - length d) arrs = (r2, a2)"
        by (cases "gather (n - length d) arrs")
      from Cons.prems Data False g obtain bs2 where r2: "r2 = Returns bs2" "bs = d @ bs2" "arrs' = a2"
        by (cases r2) auto
      from Cons.IH [of "n - length d" bs2 a2] g r2
      have "length bs2 = n - length d" "wire_size a2 + (n - length d) \<le> wire_size arrs"
        by simp_all
      with r2 False Data show ?thesis by simp
    qed
  qed
qed

lemma asio_read_wire: "asio_read n c = (r, c') \<Longrightarrow> wire_size (wire_in c') \<le> wire_size (wire_in c)"
  using gather_wire_size [of n "wire_in c"]
  by (cases "gather n (wire_in c)") (auto simp: asio_read_def)

lemma asio_read_Returns:
  "asio_read n c = (Returns bs, c') \<Longrightarrow>
     length bs = n \<and> wire_size (wire_in c') + n \<le> wire_size (wire_in c)"
  using gather_Returns [of n "wire_in c" bs]
  by (cases "gather n (wire_in c)") (auto simp: asio_read_def)

lemma Send_wire: "Send cmd c = (r, c') \<Longrightarrow> wire_in c' = wire_in c"
  by (auto simp: Send_def log_msg_def split: if_splits option.splits)

lemma send_pong_reply_wire: "send_pong_reply pingd c = (r, c') \<Longrightarrow> wire_in c' = wire_in c"
proof -
  assume a: "send_pong_reply pingd c = (r, c')"
  obtain r1 c1 where s1: "Send [0x8a, of_nat (length pingd - 1)] c = (r1, c1)"
    by (cases "Send [0x8a, of_nat (length pingd - 1) :: byte] c")
  have w1: "wire_in c1 = wire_in c" by (rule Send_wire [OF s1])
  show ?thesis
  proof (cases r1)
    case (Returns u)
    show ?thesis
    proof (cases "0 < length pingd - 1")
      case True
      with a s1 Returns have "Send (take (length pingd - 1) pingd) c1 = (r, c')"
        by (simp add: send_pong_reply_def Let_def)
      from Send_wire [OF this] w1 show ?thesis by simp
    next
      case False
      with a s1 Returns w1 show ?thesis
        by (simp add: send_pong_reply_def Let_def)
    qed
  next
    case (Throws e)
    with a s1 w1 show ?thesis by (simp add: send_pong_reply_def Let_def)
  next
    case Blocks
    with a s1 w1 show ?thesis by (simp add: send_pong_reply_def Let_def)
  qed
qed

text \<open>An operation never adds input to the socket.\<close>

definition reads_only :: "('u conn \<Rightarrow> 'a outcome \<times> 'u conn) \<Rightarrow> bool" where
  "reads_only m = (\<forall>c r c'. m c = (r, c') \<longrightarrow> wire_size (wire_in c') \<le> wire_size (wire_in c))"

lemma reads_onlyD: "reads_only m \<Longrightarrow> m c = (r, c') \<Longrightarrow> wire_size (wire_in c') \<le> wire_size (wire_in c)"
  by (auto simp: reads_only_def)

lemma reads_only_bind:
  assumes "reads_only m" and "\<And>x. reads_only (f x)"
  shows "reads_only (\<lambda>c. bind_io (m c) f)"
  unfolding reads_only_def
proof (intro allI impI)
  fix c r c'
  assume a: "bind_io (m c) f = (r, c')"
  obtain r0 c0 where m: "m c = (r0, c0)" by (cases "m c")
  note w0 = reads_onlyD [OF assms(1) m]
  show "wire_size (wire_in c') \<le> wire_size (wire_in c)"
  proof (cases r0)
    case (Returns x)
    with a m have "f x c0 = (r, c')" by simp
    from reads_onlyD [OF assms(2) this] w0 show ?thesis by simp
  next
    case (Throws e)
    with a m w0 show ?thesis by simp
  next
    case Blocks
    with a m w0 show ?thesis by simp
  qed
qed

lemma reads_only_asio_read: "reads_only (asio_read n)"
  by (auto simp: reads_only_def dest: asio_read_wire)

lemma reads_only_if: "reads_only f \<Longrightarrow> reads_only g \<Longrightarrow> reads_only (\<lambda>c. if P then f c else g c)"
  by (simp add: reads_only_def)

lemma reads_only_throw_log: "reads_only (\<lambda>c. (Throws e, log_msg lvl msg c))"
  by (simp add: reads_only_def log_msg_def)

lemma reads_only_alloc:
  "reads_only f \<Longrightarrow> reads_only (\<lambda>c. f (c\<lparr>allocs := g c\<rparr>))"
  unfolding reads_only_def
proof (intro allI impI)
  fix c r c'
  assume a: "\<forall>c r c'. f c = (r, c') \<longrightarrow> wire_size (wire_in c') \<le> wire_size (wire_in c)"
    and b: "f (c\<lparr>allocs := g c\<rparr>) = (r, c')"
  from a b have "wire_size (wire_in c') \<le> wire_size (wire_in (c\<lparr>allocs := g c\<rparr>))" by blast
  then show "wire_size (wire_in c') \<le> wire_size (wire_in c)" by simp
qed

lemma reads_only_return: "reads_only (\<lambda>c. (r, c))"
  by (simp add: reads_only_def)

lemma reads_only_ws_payload: "reads_only (ws_payload maskbit paylen)"
proof -
  have inner: "reads_only (\<lambda>c3. let blob = payload @ [0];
                 (i, data) = ws_unmask_bulk msk (int paylen) 0 blob;
                 data = ws_unmask_tail msk (int paylen) i data;
                 data = data[paylen := 0]
             in (Returns data, c3))" for payload msk
    by (simp add: Let_def split_def reads_only_return)
  have mid: "reads_only (\<lambda>c1. let msk = load32 mk 0;
            c2 = c1\<lparr>allocs := allocs c1 @ [paylen + 1]\<rparr>
        in bind_io (asio_read paylen c2) (\<lambda>payload c3.
             let blob = payload @ [0];
                 (i, data) = ws_unmask_bulk msk (int paylen) 0 blob;
                 data = ws_unmask_tail msk (int paylen) i data;
                 data = data[paylen := 0]
             in (Returns data, c3)))" for mk
    unfolding reads_only_def
  proof (intro allI impI)
    fix c r c'
    let ?F = "\<lambda>payload c3.
             let blob = payload @ [0];
                 (i, data) = ws_unmask_bulk (load32 mk 0) (int paylen) 0 blob;
                 data = ws_unmask_tail (load32 mk 0) (int paylen) i data;
                 data = data[paylen := 0]
             in (Returns data, c3)"
    assume "(let msk = load32 mk 0;
            c2 = c\<lparr>allocs := allocs c @ [paylen + 1]\<rparr>
        in bind_io (asio_read paylen c2) (\<lambda>payload c3.
             let blob = payload @ [0];
                 (i, data) = ws_unmask_bulk msk (int paylen) 0 blob;
                 data = ws_unmask_tail msk (int paylen) i data;
                 data = data[paylen := 0]
             in (Returns data, c3))) = (r, c')"
    then have e: "bind_io (asio_read paylen (c\<lparr>allocs := allocs c @ [paylen + 1]\<rparr>)) ?F = (r, c')"
      by (simp add: Let_def)
    have "reads_only (\<lambda>c. bind_io (asio_read paylen c) ?F)"
      by (rule reads_only_bind [OF reads_only_asio_read]) (rule inner)
    from reads_onlyD [OF this e] show "wire_size (wire_in c') \<le> wire_size (wire_in c)"
      by simp
  qed
  have "reads_only (\<lambda>c. if \<not> maskbit
      then (Throws SilentException, log_msg Warn ''WebSocket received unmasked data!'' c)
      else bind_io (asio_read 4 c) (\<lambda>mk c1.
        let msk = load32 mk 0;
            c2 = c1\<lparr>allocs := allocs c1 @ [paylen + 1]\<rparr>
        in bind_io (asio_read paylen c2) (\<lambda>payload c3.
             let blob = payload @ [0];
                 (i, data) = ws_unmask_bulk msk (int paylen) 0 blob;
                 data = ws_unmask_tail msk (int paylen) i data;
                 data = data[paylen := 0]
             in (Returns data, c3))))"
    by (intro reads_only_if reads_only_throw_log reads_only_bind reads_only_asio_read mid)
  then show ?thesis
    by (simp add: ws_payload_def [abs_def])
qed

lemma reads_only_get_websocket_data: "reads_only get_websocket_data"
proof -
  have body: "reads_only (\<lambda>c1.
       let mpay = b ! 0;
           maskbit = (mpay AND 0x80 \<noteq> 0);
           paybyte = mpay AND 0x7f
       in if 126 = paybyte
          then bind_io (asio_read 2 c1) (\<lambda>shore c2. ws_payload maskbit (unat (ntohs shore)) c2)
          else if 127 = paybyte
          then bind_io (asio_read 4 c1) (\<lambda>lunghi c2.
                 bind_io (asio_read 4 c2) (\<lambda>lunglo c3.
                   let lung = (ucast (ntohl lunghi) :: 64 word);
                       lung = push_bit 32 lung OR ucast (ntohl lunglo)
                   in if push_bit 40 1 < lung
                      then (Throws SilentException,
                            log_msg Warn ''Websocket insane length %lu'' c3)
                      else ws_payload maskbit (unat lung) c3))
          else ws_payload maskbit (unat paybyte) c1)" for b :: "byte list"
    unfolding Let_def
    by (intro reads_only_if reads_only_bind reads_only_asio_read reads_only_throw_log
        reads_only_ws_payload)
  have "reads_only (\<lambda>c. bind_io (asio_read 1 c) (\<lambda>b c1.
       let mpay = b ! 0;
           maskbit = (mpay AND 0x80 \<noteq> 0);
           paybyte = mpay AND 0x7f
       in if 126 = paybyte
          then bind_io (asio_read 2 c1) (\<lambda>shore c2. ws_payload maskbit (unat (ntohs shore)) c2)
          else if 127 = paybyte
          then bind_io (asio_read 4 c1) (\<lambda>lunghi c2.
                 bind_io (asio_read 4 c2) (\<lambda>lunglo c3.
                   let lung = (ucast (ntohl lunghi) :: 64 word);
                       lung = push_bit 32 lung OR ucast (ntohl lunglo)
                   in if push_bit 40 1 < lung
                      then (Throws SilentException,
                            log_msg Warn ''Websocket insane length %lu'' c3)
                      else ws_payload maskbit (unat lung) c3))
          else ws_payload maskbit (unat paybyte) c1))"
    by (intro reads_only_bind reads_only_asio_read body)
  then show ?thesis
    by (simp add: get_websocket_data_def [abs_def])
qed

lemma get_websocket_data_wire:
  "get_websocket_data c = (r, c') \<Longrightarrow> wire_size (wire_in c') \<le> wire_size (wire_in c)"
  by (rule reads_onlyD [OF reads_only_get_websocket_data])

text \<open>
  The loop of \<^verbatim>\<open>get_websocket_line\<close> and what follows it, entered with the opcode of
  the frame header just read:
  \<^verbatim>\<open>
  while (9 == opcode or 0xa == opcode)
  {
      std::string pingd = get_websocket_data();
      if (9 == opcode) { ... the reply above ... }
      boost::asio::read(*_socket, boost::asio::buffer(&fop, 1));
      opcode = fop & 0xf;
  }
  if (8 == opcode) { logger().info("Received WebSocket close"); throw SilentException(); }
  if (1 != opcode)
  { logger().warn("Not expecting binary websocket data; opcode=%d", opcode); throw SilentException(); }
  return get_websocket_data();
  \<close>
\<close>

function get_websocket_line_loop :: "byte \<Rightarrow> 'u conn \<Rightarrow> byte list outcome \<times> 'u conn" where
  "get_websocket_line_loop opcode c =
     (if 9 = opcode \<or> 0xa = opcode
      then (case get_websocket_data c of
              (Returns pingd, c1) \<Rightarrow>
                (case (if 9 = opcode then send_pong_reply pingd c1 else (Returns (), c1)) of
                   (Returns u, c2) \<Rightarrow>
                     (case asio_read 1 c2 of
                        (Returns fop, c3) \<Rightarrow> get_websocket_line_loop ((fop ! 0) AND 0xf) c3
                      | (Throws e, c3) \<Rightarrow> (Throws e, c3)
                      | (Blocks, c3) \<Rightarrow> (Blocks, c3))
                 | (Throws e, c2) \<Rightarrow> (Throws e, c2)
                 | (Blocks, c2) \<Rightarrow> (Blocks, c2))
            | (Throws e, c1) \<Rightarrow> (Throws e, c1)
            | (Blocks, c1) \<Rightarrow> (Blocks, c1))
      else if 8 = opcode
      then (Throws SilentException, log_msg Info ''Received WebSocket close'' c)
      else if 1 \<noteq> opcode
      then (Throws SilentException,
            log_msg Warn ''Not expecting binary websocket data; opcode=%d'' c)
      else get_websocket_data c)"
  by pat_completeness auto
termination
  apply (relation "measure (\<lambda>(opcode, c). wire_size (wire_in c))")
   apply simp
  apply simp
  subgoal for opcode c x y x1 xa ya xb yb x1b
    using get_websocket_data_wire [of c "Returns x1" y]
      send_pong_reply_wire [of x1 y "Returns ()" ya]
      asio_read_Returns [of "Suc 0" ya x1b yb]
    by (auto split: if_splits)
  done

declare get_websocket_line_loop.simps [simp del]

text \<open>
  \<^verbatim>\<open>
  unsigned char fop;
  boost::asio::read(*_socket, boost::asio::buffer(&fop, 1));
  unsigned char opcode = fop & 0xf;
  \<close>
  and then the loop.
\<close>

definition get_websocket_line :: "'u conn \<Rightarrow> byte list outcome \<times> 'u conn" where
  "get_websocket_line c =
     bind_io (asio_read 1 c) (\<lambda>fop c1. get_websocket_line_loop ((fop ! 0) AND 0xf) c1)"


section \<open>The WebSocket handshake (WebSocket.cc)\<close>

subsection \<open>base64\_encode\<close>

definition base64_chars :: string where
  "base64_chars = ''ABCDEFGHIJKLMNOPQRSTUVWXYZabcdefghijklmnopqrstuvwxyz0123456789+/''"

text \<open>
  The inner loop of \<^verbatim>\<open>base64_encode\<close>, with \<^verbatim>\<open>unsigned int val\<close> a 32-bit word and
  \<^verbatim>\<open>int valb\<close>:
  \<^verbatim>\<open>
  while (valb >= 0)
  {
      out.push_back("ABC...+/"[(val>>valb)&0x3F]);
      valb -= 6;
  }
  \<close>
\<close>

function base64_emit :: "32 word \<Rightarrow> int \<Rightarrow> string \<Rightarrow> int \<times> string" where
  "base64_emit val valb out =
     (if valb \<ge> 0
      then base64_emit val (valb - 6)
             (out @ [base64_chars ! unat (drop_bit (nat valb) val AND 0x3F)])
      else (valb, out))"
  by pat_completeness auto
termination
  by (relation "measure (\<lambda>(val, valb, out). nat (valb + 1))") auto

declare base64_emit.simps [simp del]

text \<open>
  The outer loop over the buffer:
  \<^verbatim>\<open>
  for (int i=0; i<len; i++)
  {
      unsigned char c = buf[i];
      val = (val << 8) + c;
      valb += 8;
      ... inner loop ...
  }
  \<close>
\<close>

fun base64_loop :: "32 word \<Rightarrow> int \<Rightarrow> string \<Rightarrow> byte list \<Rightarrow> 32 word \<times> int \<times> string" where
  "base64_loop val valb out [] = (val, valb, out)"
| "base64_loop val valb out (c # buf) =
     (let val = push_bit 8 val + ucast c;
          valb = valb + 8;
          (valb, out) = base64_emit val valb out
      in base64_loop val valb out buf)"

text \<open>\<^verbatim>\<open>while (out.size()%4) out.push_back('=');\<close>\<close>

function base64_pad :: "string \<Rightarrow> string" where
  "base64_pad out = (if length out mod 4 \<noteq> 0 then base64_pad (out @ ''='') else out)"
  by pat_completeness auto
termination
proof (relation "measure (\<lambda>out. (4 - length out mod 4) mod 4)")
  show "wf (measure (\<lambda>out. (4 - length out mod 4) mod 4))" by simp
next
  fix out :: string
  assume a: "length out mod 4 \<noteq> 0"
  have "Suc (length out) mod 4 = (if length out mod 4 = 3 then 0 else Suc (length out mod 4))"
    by (simp add: mod_Suc)
  with a have "(4 - Suc (length out) mod 4) mod 4 < (4 - length out mod 4) mod 4"
    by (auto split: if_splits)
  then show "(out @ ''='', out) \<in> measure (\<lambda>out. (4 - length out mod 4) mod 4)"
    by simp
qed

declare base64_pad.simps [simp del]

text \<open>
  \<^verbatim>\<open>
  unsigned int val = 0;
  int valb = -6;
  ... outer loop ...
  if (valb > -6) out.push_back("ABC...+/"[((val<<8)>>(valb+8))&0x3F]);
  while (out.size()%4) out.push_back('=');
  return out;
  \<close>
  The argument is the buffer \<^verbatim>\<open>buf[0 .. len-1]\<close>.
\<close>

definition base64_encode :: "byte list \<Rightarrow> string" where
  "base64_encode buf =
     (let (val, valb, out) = base64_loop 0 (-6) [] buf;
          out = (if valb > -6
                 then out @ [base64_chars ! unat (drop_bit (nat (valb + 8)) (push_bit 8 val) AND 0x3F)]
                 else out)
      in base64_pad out)"

subsection \<open>SHA-1\<close>

text \<open>
  \<^verbatim>\<open>SHA1\<close> is OpenSSL's and not part of the repository. It is modelled from its
  specification, FIPS 180-4: the message is padded with a one bit, zero bits and its
  length in bits as a 64-bit big-endian number to a multiple of 64 bytes; each block of
  sixteen big-endian 32-bit words is expanded to eighty words and run through eighty
  rounds; the digest is the five chaining words, big-endian.
\<close>

definition rotl32 :: "nat \<Rightarrow> 32 word \<Rightarrow> 32 word" where
  "rotl32 n w = push_bit n w OR drop_bit (32 - n) w"

fun words_be :: "byte list \<Rightarrow> 32 word list" where
  "words_be (a # b # c # d # rest) = ntohl [a, b, c, d] # words_be rest"
| "words_be _ = []"

definition sha1_pad :: "byte list \<Rightarrow> byte list" where
  "sha1_pad m =
     (let l = length m; bits = (of_nat (8 * l) :: 64 word)
      in m @ [0x80] @ replicate ((119 - l mod 64) mod 64) 0 @
         map (\<lambda>i. ucast (drop_bit (8 * (7 - i)) bits)) [0, 1, 2, 3, 4, 5, 6, 7])"

definition sha1_f :: "nat \<Rightarrow> 32 word \<Rightarrow> 32 word \<Rightarrow> 32 word \<Rightarrow> 32 word" where
  "sha1_f t b c d =
     (if t < 20 then (b AND c) XOR (NOT b AND d)
      else if t < 40 then b XOR c XOR d
      else if t < 60 then (b AND c) XOR (b AND d) XOR (c AND d)
      else b XOR c XOR d)"

definition sha1_k :: "nat \<Rightarrow> 32 word" where
  "sha1_k t =
     (if t < 20 then 0x5a827999 else if t < 40 then 0x6ed9eba1
      else if t < 60 then 0x8f1bbcdc else 0xca62c1d6)"

text \<open>The message schedule, most recent word first: \<open>W\<^sub>t = ROTL\<^sup>1(W\<^sub>t\<^sub>-\<^sub>3 XOR W\<^sub>t\<^sub>-\<^sub>8 XOR W\<^sub>t\<^sub>-\<^sub>1\<^sub>4 XOR W\<^sub>t\<^sub>-\<^sub>1\<^sub>6)\<close>.\<close>

definition sha1_schedule :: "32 word list \<Rightarrow> 32 word list" where
  "sha1_schedule ws =
     foldl (\<lambda>ws t. rotl32 1 (ws ! 2 XOR ws ! 7 XOR ws ! 13 XOR ws ! 15) # ws) ws [16..<80]"

type_synonym sha1_state = "32 word \<times> 32 word \<times> 32 word \<times> 32 word \<times> 32 word"

fun sha1_round :: "sha1_state \<Rightarrow> nat \<Rightarrow> 32 word \<Rightarrow> sha1_state" where
  "sha1_round (a, b, c, d, e) t w =
     (rotl32 5 a + sha1_f t b c d + e + sha1_k t + w, a, rotl32 30 b, c, d)"

fun sha1_rounds :: "nat \<Rightarrow> sha1_state \<Rightarrow> 32 word list \<Rightarrow> sha1_state" where
  "sha1_rounds t st [] = st"
| "sha1_rounds t st (w # ws) = sha1_rounds (t + 1) (sha1_round st t w) ws"

fun sha1_block :: "sha1_state \<Rightarrow> 32 word list \<Rightarrow> sha1_state" where
  "sha1_block (h0, h1, h2, h3, h4) blk =
     (case sha1_rounds 0 (h0, h1, h2, h3, h4) (rev (sha1_schedule (rev blk))) of
        (a, b, c, d, e) \<Rightarrow> (h0 + a, h1 + b, h2 + c, h3 + d, h4 + e))"

fun sha1_blocks :: "sha1_state \<Rightarrow> 32 word list \<Rightarrow> sha1_state" where
  "sha1_blocks st ws =
     (if length ws < 16 then st
      else sha1_blocks (sha1_block st (take 16 ws)) (drop 16 ws))"

declare sha1_blocks.simps [simp del]

definition be_bytes :: "32 word \<Rightarrow> byte list" where
  "be_bytes w = [ucast (drop_bit 24 w), ucast (drop_bit 16 w), ucast (drop_bit 8 w), ucast w]"

definition SHA1 :: "byte list \<Rightarrow> byte list" where
  "SHA1 m =
     (case sha1_blocks (0x67452301, 0xefcdab89, 0x98badcfe, 0x10325476, 0xc3d2e1f0)
             (words_be (sha1_pad m)) of
        (h0, h1, h2, h3, h4) \<Rightarrow> concat (map be_bytes [h0, h1, h2, h3, h4]))"


subsection \<open>The virtual hooks\<close>

text \<open>
  \<^verbatim>\<open>OnConnection\<close> and \<^verbatim>\<open>OnLine\<close> are implemented by the users of the class. A hook
  sees the connection, updates its own state, calls \<^verbatim>\<open>Send\<close> any number of times, and
  then returns, throws or never comes back: its result is that outcome, its new
  state and the buffers it sent, in order.
\<close>

type_synonym 'u hook_result = "unit outcome \<times> 'u \<times> byte list list"

fun send_all :: "byte list list \<Rightarrow> 'u conn \<Rightarrow> unit outcome \<times> 'u conn" where
  "send_all [] c = (Returns (), c)"
| "send_all (cmd # cmds) c = bind_io (Send cmd c) (\<lambda>_ c1. send_all cmds c1)"

definition run_hook :: "'u hook_result \<Rightarrow> 'u conn \<Rightarrow> unit outcome \<times> 'u conn" where
  "run_hook h c =
     (case h of (r, u, outs) \<Rightarrow> bind_io (send_all outs (c\<lparr>app := u\<rparr>)) (\<lambda>_ c1. (r, c1)))"

subsection \<open>HandshakeLine\<close>

definition crlf :: string where
  "crlf = [CHR 0x0D, CHR 0x0A]"

definition websocket_guid :: string where
  "websocket_guid = ''258EAFA5-E914-47DA-95CA-C5AB0DC85B11''"

text \<open>
  The reply built at the end of \<^verbatim>\<open>HandshakeLine\<close>:
  \<^verbatim>\<open>
  std::string response =
      "HTTP/1.1 101 Switching Protocols\r\n"
      "Upgrade: websocket\r\n"
      "Connection: Upgrade\r\n"
      "Sec-WebSocket-Accept: ";
  response += b64hash;
  response += "\r\n" "\r\n";
  \<close>
\<close>

definition switching_protocols :: "string \<Rightarrow> string" where
  "switching_protocols b64hash =
     ''HTTP/1.1 101 Switching Protocols'' @ crlf @
     ''Upgrade: websocket'' @ crlf @
     ''Connection: Upgrade'' @ crlf @
     ''Sec-WebSocket-Accept: '' @ b64hash @ crlf @ crlf"

text \<open>
  \<^verbatim>\<open>HandshakeLine\<close>, statement by statement. \<^verbatim>\<open>line.compare(0, n, s) == 0\<close> with \<open>n\<close> the
  length of \<open>s\<close> says that \<open>s\<close> is a prefix of the line; \<^verbatim>\<open>line.substr(4, line.find(" ", 4) - 4)\<close>
  is the part of the line from offset 4 up to the next blank, or to the end of the line
  when there is none.
\<close>

definition HandshakeLine ::
    "('u conn \<Rightarrow> 'u hook_result) \<Rightarrow> string \<Rightarrow> 'u conn \<Rightarrow> unit outcome \<times> 'u conn" where
  "HandshakeLine OnConnection line c =
     (if \<not> got_first_line c
      then (let c = c\<lparr>got_first_line := True\<rparr>
            in if take 4 line \<noteq> ''GET ''
               then bind_io
                      (Send (bytes_of (''HTTP/1.1 501 Not Implemented'' @ crlf @
                                       ''Server: CogServer'' @ crlf @ crlf)) c)
                      (\<lambda>_ c1. (Throws SilentException, c1))
               else (Returns (), c\<lparr>url := takeWhile (\<lambda>ch. ch \<noteq> CHR '' '') (drop 4 line)\<rparr>))
      else
        (let c = (if \<not> got_http_header c \<and> length line = 0
                  then c\<lparr>got_http_header := True\<rparr> else c)
         in if \<not> got_http_header c
            then (if take (length ''Upgrade: websocket'') line = ''Upgrade: websocket''
                  then (Returns (), c\<lparr>got_websock_header := True\<rparr>)
                  else if take (length ''Sec-WebSocket-Key: '') line = ''Sec-WebSocket-Key: ''
                  then (Returns (), c\<lparr>webkey := drop (length ''Sec-WebSocket-Key: '') line\<rparr>)
                  else (Returns (), c))
            else bind_io (run_hook (OnConnection c) c) (\<lambda>_ c1.
                   if \<not> got_websock_header c1 then (Throws SilentException, c1)
                   else (let c2 = c1\<lparr>webkey := webkey c1 @ websocket_guid\<rparr>;
                             hash = SHA1 (bytes_of (webkey c2));
                             b64hash = base64_encode hash;
                             response = switching_protocols b64hash
                         in bind_io (Send (bytes_of response) c2)
                              (\<lambda>_ c3. (Returns (), c3\<lparr>do_frame_io := True\<rparr>))))))"

section \<open>The read loop (ServerSocket.cc, handle\_connection)\<close>

text \<open>
  \<^verbatim>\<open>boost::asio::read_until(*_socket, b, match_eol_or_escape)\<close> is Boost's. From its
  documentation: it applies the match condition to the data of the stream buffer not
  yet searched; on a match it returns the number of bytes up to the end of the match;
  otherwise it reads some more bytes from the socket into the buffer and searches
  again from where the last search stopped; it throws when a read fails. The
  arguments are the socket's input, the buffer \<open>b\<close> and the search position.
\<close>

fun read_until_loop :: "arrival list \<Rightarrow> byte list \<Rightarrow> nat \<Rightarrow> nat outcome \<times> arrival list \<times> byte list" where
  "read_until_loop [] b pos =
     (case match_eol_or_escape (drop pos b) of
        (k, True) \<Rightarrow> (Returns (pos + k), [], b)
      | (k, False) \<Rightarrow> (Blocks, [], b))"
| "read_until_loop (a # arrs) b pos =
     (case match_eol_or_escape (drop pos b) of
        (k, True) \<Rightarrow> (Returns (pos + k), a # arrs, b)
      | (k, False) \<Rightarrow>
          (case a of
             Data d \<Rightarrow> read_until_loop arrs (b @ d) (pos + k)
           | Fail e \<Rightarrow> (Throws (system_error e), arrs, b)))"

definition read_until :: "byte list \<Rightarrow> 'u conn \<Rightarrow> nat outcome \<times> 'u conn \<times> byte list" where
  "read_until b c =
     (case read_until_loop (wire_in c) b 0 of (r, arrs, b') \<Rightarrow> (r, c\<lparr>wire_in := arrs\<rparr>, b'))"

text \<open>
  \<^verbatim>\<open>std::getline(is, line)\<close> on a stream over the buffer: the line is what precedes the
  first line feed, which is consumed with it; without a line feed the line is the
  whole buffer. The result is the line and what stays in the buffer. Then
  \<^verbatim>\<open>
  if (not line.empty() and line[line.length()-1] == '\r') line.erase(line.end()-1);
  \<close>
\<close>

definition getline :: "byte list \<Rightarrow> byte list \<times> byte list" where
  "getline b = (takeWhile (\<lambda>c. c \<noteq> 0x0A) b, drop 1 (dropWhile (\<lambda>c. c \<noteq> 0x0A) b))"

definition strip_cr :: "byte list \<Rightarrow> byte list" where
  "strip_cr line = (if line \<noteq> [] \<and> last line = 0x0D then butlast line else line)"

text \<open>
  The \<^verbatim>\<open>catch (const boost::system::system_error& e)\<close> clause of the loop: it leaves
  the loop on three error codes and only logs on every other one; an exception of
  another type is not caught.
  \<^verbatim>\<open>
  if (e.code() == boost::asio::error::eof) { break; }
  else if (e.code() == boost::asio::error::connection_reset) { break; }
  else if (e.code() == boost::asio::error::not_connected) { break; }
  else { logger().error("ServerSocket::handle_connection(): Error reading data. Message: %s", e.what()); }
  \<close>
\<close>

datatype 'u iteration =
  Again "byte list" "'u conn"
  | Break "byte list" "'u conn"
  | Escapes "unit outcome" "byte list" "'u conn"

definition catch_system_error :: "exn \<Rightarrow> byte list \<Rightarrow> 'u conn \<Rightarrow> 'u iteration" where
  "catch_system_error e b c =
     (case e of
        system_error code \<Rightarrow>
          (if code = eof then Break b c
           else if code = connection_reset then Break b c
           else if code = not_connected then Break b c
           else Again b (log_msg Error
                  ''ServerSocket::handle_connection(): Error reading data. Message: %s'' c))
      | _ \<Rightarrow> Escapes (Throws e) b c)"

text \<open>
  One pass through the body of \<^verbatim>\<open>while (true)\<close>:
  \<^verbatim>\<open>
  try
  {
      _status = "iwait";
      boost::asio::read_until(*_socket, b, match_eol_or_escape);
      std::istream is(&b);
      std::string line;
      std::getline(is, line);
      if (not line.empty() and line[line.length()-1] == '\r') { line.erase(line.end()-1); }
      _status = " run ";
      OnLine(line);
  }
  catch (const boost::system::system_error& e) { ... }
  \<close>
  \<open>Again\<close> is the next pass, \<open>Break\<close> the exit from the loop, \<open>Escapes\<close> an exception
  that leaves the function, or a thread that blocks for ever.
\<close>

definition handle_connection_pass ::
    "(byte list \<Rightarrow> 'u conn \<Rightarrow> 'u hook_result) \<Rightarrow> byte list \<Rightarrow> 'u conn \<Rightarrow> 'u iteration" where
  "handle_connection_pass OnLine b c =
     (let c = c\<lparr>status := ''iwait''\<rparr>
      in case read_until b c of
           (Returns n, c1, b1) \<Rightarrow>
             (let (line, b2) = getline b1;
                  line = strip_cr line;
                  c2 = c1\<lparr>status := '' run ''\<rparr>
              in case run_hook (OnLine line c2) c2 of
                   (Returns u, c3) \<Rightarrow> Again b2 c3
                 | (Throws e, c3) \<Rightarrow> catch_system_error e b2 c3
                 | (Blocks, c3) \<Rightarrow> Escapes Blocks b2 c3)
         | (Throws e, c1, b1) \<Rightarrow> catch_system_error e b1 c1
         | (Blocks, c1, b1) \<Rightarrow> Escapes Blocks b1 c1)"


lemma match_needs_a_byte: "snd (match_eol_or_escape buf) \<Longrightarrow> buf \<noteq> []"
  by (auto simp: match_eol_or_escape_def)

lemma read_until_loop_measure:
  assumes "read_until_loop arrs b pos = (r, arrs', b')"
  shows "wire_size arrs' + length b' \<le> wire_size arrs + length b \<and>
         (\<forall>e. r = Throws e \<longrightarrow> wire_size arrs' + length b' < wire_size arrs + length b) \<and>
         (\<forall>n. r = Returns n \<longrightarrow> b' \<noteq> [])"
  using assms
proof (induction arrs arbitrary: b pos)
  case Nil
  obtain k m where km: "match_eol_or_escape (drop pos b) = (k, m)"
    by (cases "match_eol_or_escape (drop pos b)")
  show ?case
  proof (cases m)
    case True
    with km have "drop pos b \<noteq> []"
      using match_needs_a_byte [of "drop pos b"] by simp
    with Nil km True show ?thesis by auto
  next
    case False
    with Nil km show ?thesis by auto
  qed
next
  case (Cons a arrs)
  obtain k m where km: "match_eol_or_escape (drop pos b) = (k, m)"
    by (cases "match_eol_or_escape (drop pos b)")
  show ?case
  proof (cases m)
    case True
    with km have "drop pos b \<noteq> []"
      using match_needs_a_byte [of "drop pos b"] by simp
    with Cons.prems km True show ?thesis by auto
  next
    case False
    show ?thesis
    proof (cases a)
      case (Fail e)
      with Cons.prems km False show ?thesis by auto
    next
      case (Data d)
      with Cons.prems km False have "read_until_loop arrs (b @ d) (pos + k) = (r, arrs', b')"
        by simp
      from Cons.IH [OF this] Data show ?thesis by auto
    qed
  qed
qed

lemma send_all_wire: "send_all cmds c = (r, c') \<Longrightarrow> wire_in c' = wire_in c"
proof (induction cmds arbitrary: c)
  case Nil
  then show ?case by simp
next
  case (Cons cmd cmds)
  obtain r1 c1 where s: "Send cmd c = (r1, c1)" by (cases "Send cmd c")
  note w = Send_wire [OF s]
  show ?case
  proof (cases r1)
    case (Returns u)
    with Cons.prems s have "send_all cmds c1 = (r, c')" by simp
    from Cons.IH [OF this] w show ?thesis by simp
  next
    case (Throws e)
    with Cons.prems s w show ?thesis by simp
  next
    case Blocks
    with Cons.prems s w show ?thesis by simp
  qed
qed

lemma run_hook_wire: "run_hook h c = (r, c') \<Longrightarrow> wire_in c' = wire_in c"
proof -
  assume a: "run_hook h c = (r, c')"
  obtain r0 u outs where h: "h = (r0, u, outs)" by (cases h)
  obtain r1 c1 where s: "send_all outs (c\<lparr>app := u\<rparr>) = (r1, c1)"
    by (cases "send_all outs (c\<lparr>app := u\<rparr>)")
  from send_all_wire [OF s] have w: "wire_in c1 = wire_in c" by simp
  from a h s have "c' = c1"
    by (cases r1) (auto simp: run_hook_def)
  with w show ?thesis by simp
qed

lemma getline_shorter: "b \<noteq> [] \<Longrightarrow> length (snd (getline b)) < length b"
proof -
  assume "b \<noteq> []"
  have "length (dropWhile (\<lambda>c. c \<noteq> 0x0A) b) \<le> length b"
    by (rule length_dropWhile_le)
  moreover from \<open>b \<noteq> []\<close> have "0 < length b" by simp
  ultimately have "length (dropWhile (\<lambda>c. c \<noteq> 0x0A) b) - 1 < length b" by arith
  then show ?thesis by (simp add: getline_def)
qed

lemma catch_system_error_Again:
  "catch_system_error e b c = Again b' c' \<Longrightarrow> b' = b \<and> wire_in c' = wire_in c"
  by (auto simp: catch_system_error_def log_msg_def split: exn.splits if_splits)

lemma handle_connection_pass_Again:
  assumes "handle_connection_pass OnLine b c = Again b' c'"
  shows "wire_size (wire_in c') + length b' < wire_size (wire_in c) + length b"
proof -
  let ?c = "c\<lparr>status := ''iwait''\<rparr>"
  obtain r arrs b1 where ru: "read_until_loop (wire_in c) b 0 = (r, arrs, b1)"
    by (cases "read_until_loop (wire_in c) b 0")
  note m = read_until_loop_measure [OF ru]
  have rd: "read_until b ?c = (r, ?c\<lparr>wire_in := arrs\<rparr>, b1)"
    using ru by (simp add: read_until_def)
  show ?thesis
  proof (cases r)
    case Blocks
    with assms rd show ?thesis by (simp add: handle_connection_pass_def)
  next
    case (Throws e)
    with assms rd have "catch_system_error e b1 (?c\<lparr>wire_in := arrs\<rparr>) = Again b' c'"
      by (simp add: handle_connection_pass_def)
    from catch_system_error_Again [OF this] m Throws show ?thesis by simp
  next
    case (Returns n)
    with m have ne: "b1 \<noteq> []" by simp
    let ?line = "strip_cr (fst (getline b1))"
    let ?b2 = "snd (getline b1)"
    let ?c2 = "?c\<lparr>wire_in := arrs, status := '' run ''\<rparr>"
    obtain r3 c3 where h: "run_hook (OnLine ?line ?c2) ?c2 = (r3, c3)"
      by (cases "run_hook (OnLine ?line ?c2) ?c2")
    from run_hook_wire [OF h] have w3: "wire_in c3 = arrs" by simp
    have "b' = ?b2 \<and> wire_in c' = arrs"
    proof (cases r3)
      case (Returns u)
      with assms rd \<open>r = Returns n\<close> h w3 show ?thesis
        by (simp add: handle_connection_pass_def split_def Let_def)
    next
      case (Throws e)
      with assms rd \<open>r = Returns n\<close> h have "catch_system_error e ?b2 c3 = Again b' c'"
        by (simp add: handle_connection_pass_def split_def Let_def)
      from catch_system_error_Again [OF this] w3 show ?thesis by simp
    next
      case Blocks
      with assms rd \<open>r = Returns n\<close> h show ?thesis
        by (simp add: handle_connection_pass_def split_def Let_def)
    qed
    with getline_shorter [OF ne] m show ?thesis by simp
  qed
qed

text \<open>The loop \<^verbatim>\<open>while (true)\<close>: passes until one breaks out or escapes.\<close>

function handle_connection_loop ::
    "(byte list \<Rightarrow> 'u conn \<Rightarrow> 'u hook_result) \<Rightarrow> byte list \<Rightarrow> 'u conn
      \<Rightarrow> unit outcome \<times> byte list \<times> 'u conn" where
  "handle_connection_loop OnLine b c =
     (case handle_connection_pass OnLine b c of
        Again b' c' \<Rightarrow> handle_connection_loop OnLine b' c'
      | Break b' c' \<Rightarrow> (Returns (), b', c')
      | Escapes r b' c' \<Rightarrow> (r, b', c'))"
  by pat_completeness auto
termination
  apply (relation "measure (\<lambda>(OnLine, b, c). wire_size (wire_in c) + length b)")
   apply simp
  subgoal for OnLine b c b' c'
    using handle_connection_pass_Again [of OnLine b c b' c'] by simp
  done

declare handle_connection_loop.simps [simp del]

text \<open>
  \<^verbatim>\<open>handle_connection\<close>: the thread id (\<^verbatim>\<open>gettid()\<close>, a parameter here), the hook
  \<^verbatim>\<open>OnConnection\<close>, the loop over an empty stream buffer, and after the loop
  \<^verbatim>\<open>
  std::istream is(&b);
  std::string line;
  std::getline(is, line);
  if (not line.empty() and line[line.length()-1] == '\r') { line.erase(line.end()-1); }
  if (not line.empty())
      OnLine(line);
  logger().debug("ServerSocket::exiting handle_connection()");
  delete this;
  \<close>
  The function returns where the source reaches \<^verbatim>\<open>delete this\<close>; the destructor is
  modelled with the registry below.
\<close>

definition handle_connection ::
    "int \<Rightarrow> ('u conn \<Rightarrow> 'u hook_result) \<Rightarrow> (byte list \<Rightarrow> 'u conn \<Rightarrow> 'u hook_result)
      \<Rightarrow> 'u conn \<Rightarrow> unit outcome \<times> 'u conn" where
  "handle_connection gettid OnConnection OnLine c =
     (let c = c\<lparr>tid := gettid\<rparr>;
          c = log_msg Debug ''ServerSocket::handle_connection()'' c
      in bind_io (run_hook (OnConnection c) c) (\<lambda>_ c1.
           case handle_connection_loop OnLine [] c1 of
             (Returns u, b, c2) \<Rightarrow>
               (let (line, b') = getline b;
                    line = strip_cr line
                in bind_io (if line \<noteq> [] then run_hook (OnLine line c2) c2 else (Returns (), c2))
                     (\<lambda>_ c3. (Returns (), log_msg Debug ''ServerSocket::exiting handle_connection()'' c3)))
           | (Throws e, b, c2) \<Rightarrow> (Throws e, c2)
           | (Blocks, b, c2) \<Rightarrow> (Blocks, c2)))"

section \<open>The connection registry (ServerSocket.cc)\<close>

text \<open>
  The process-wide state: \<^verbatim>\<open>static std::set<ServerSocket*> _sock_list\<close>, a set of
  addresses, and the objects that live at addresses. The mutex \<^verbatim>\<open>_sock_lock\<close> makes
  each of the three functions below atomic; they are modelled as atomic steps.
\<close>

record 'u world =
  sock_list :: "nat set"
  objs :: "nat \<Rightarrow> 'u conn option"

definition add_sock :: "nat \<Rightarrow> 'u world \<Rightarrow> 'u world" where
  "add_sock ss w = w\<lparr>sock_list := insert ss (sock_list w)\<rparr>"

definition rem_sock :: "nat \<Rightarrow> 'u world \<Rightarrow> 'u world" where
  "rem_sock ss w = w\<lparr>sock_list := sock_list w - {ss}\<rparr>"

definition connection_header :: string where
  "connection_header = ''DATE             THREAD STATE''"

text \<open>
  \<^verbatim>\<open>connection_stats\<close>: the date comes from \<^verbatim>\<open>gmtime_r\<close> and \<^verbatim>\<open>strftime\<close> of the C
  library, a parameter here; \<^verbatim>\<open>snprintf(bf, 60, "%s %8d %s", buff, _tid, _status)\<close>
  right-justifies the decimal thread id in eight columns and keeps at most 59
  characters.
\<close>

fun decimal :: "nat \<Rightarrow> string" where
  "decimal n =
     (if n < 10 then [char_of (48 + n)]
      else decimal (n div 10) @ [char_of (48 + n mod 10)])"

declare decimal.simps [simp del]

definition printf_8d :: "int \<Rightarrow> string" where
  "printf_8d i =
     (let digits = (if i < 0 then ''-'' @ decimal (nat (- i)) else decimal (nat i))
      in replicate (8 - length digits) (CHR '' '') @ digits)"

definition connection_stats :: "(int \<Rightarrow> string) \<Rightarrow> 'u conn \<Rightarrow> string" where
  "connection_stats strftime c =
     take 59 (strftime (start_time c) @ '' '' @ printf_8d (tid c) @ '' '' @ status c)"

text \<open>
  \<^verbatim>\<open>display_stats\<close> walks the set in the order of \<^verbatim>\<open>std::set\<close>, by increasing address,
  and calls the two member functions through each pointer; a pointer to an object
  that no longer exists has no defined behaviour (\<open>None\<close>).
  \<^verbatim>\<open>
  bool hdr = false;
  for (ServerSocket* ss : _sock_list)
  {
      if (not hdr) { rc += ss->connection_header() + "\n"; hdr = true; }
      rc += ss->connection_stats() + "\n";
  }
  return rc;
  \<close>
\<close>

fun display_rows ::
    "(int \<Rightarrow> string) \<Rightarrow> (nat \<Rightarrow> 'u conn option) \<Rightarrow> bool \<Rightarrow> string \<Rightarrow> nat list \<Rightarrow> string option" where
  "display_rows strftime heap hdr rc [] = Some rc"
| "display_rows strftime heap hdr rc (ss # rest) =
     (case heap ss of
        None \<Rightarrow> None
      | Some c \<Rightarrow>
          (let rc = (if \<not> hdr then rc @ connection_header @ [CHR 0x0A] else rc);
               rc = rc @ connection_stats strftime c @ [CHR 0x0A]
           in display_rows strftime heap True rc rest))"

definition display_stats :: "(int \<Rightarrow> string) \<Rightarrow> 'u world \<Rightarrow> string option" where
  "display_stats strftime w =
     display_rows strftime (objs w) False [] (sorted_list_of_set (sock_list w))"

text \<open>
  The constructor, on the storage at address \<open>this\<close>; \<open>fresh\<close> gives the members the
  constructor does not set and \<open>now\<close> is \<^verbatim>\<open>time(nullptr)\<close>.
  \<^verbatim>\<open>
  ServerSocket::ServerSocket(void) : _socket(nullptr)
  {
      _start_time = time(nullptr);
      _tid = 0;
      _status = "start";
      add_sock(this);
  }
  \<close>
\<close>

definition ServerSocket_ctor :: "'u conn \<Rightarrow> int \<Rightarrow> nat \<Rightarrow> 'u world \<Rightarrow> 'u world" where
  "ServerSocket_ctor fresh now this w =
     add_sock this
       (w\<lparr>objs := (objs w)(this \<mapsto>
             fresh\<lparr>socket := None, start_time := now, tid := 0, status := ''start''\<rparr>)\<rparr>)"

text \<open>
  \<^verbatim>\<open>
  void ServerSocket::set_connection(boost::asio::ip::tcp::socket* sock)
  {
      if (_socket) delete _socket;
      _socket = sock;
  }
  \<close>
\<close>

definition set_connection :: "nat \<Rightarrow> 'u conn \<Rightarrow> 'u conn" where
  "set_connection sock c = c\<lparr>socket := Some sock\<rparr>"

text \<open>
  \<^verbatim>\<open>SetCloseAndDelete\<close>: \<^verbatim>\<open>_socket->shutdown(...)\<close> and \<^verbatim>\<open>_socket->close()\<close> inside
  \<^verbatim>\<open>try\<close>; \<open>closing\<close> is the error they throw, if any. Through a null \<^verbatim>\<open>_socket\<close> the
  call has no defined behaviour (\<open>None\<close>).
  \<^verbatim>\<open>
  catch (const boost::system::system_error& e)
  {
      if (e.code() != boost::asio::error::not_connected and
          e.code() != boost::asio::error::bad_descriptor)
          logger().error("ServerSocket::handle_connection(): Error closing socket: %s", e.what());
  }
  \<close>
\<close>

definition SetCloseAndDelete :: "errc option \<Rightarrow> 'u conn \<Rightarrow> 'u conn option" where
  "SetCloseAndDelete closing c =
     (let c = log_msg Debug ''ServerSocket::SetCloseAndDelete()'' c
      in case socket c of
           None \<Rightarrow> None
         | Some sock \<Rightarrow>
             (case closing of
                None \<Rightarrow> Some c
              | Some code \<Rightarrow>
                  (if code \<noteq> not_connected \<and> code \<noteq> bad_descriptor
                   then Some (log_msg Error
                          ''ServerSocket::handle_connection(): Error closing socket: %s'' c)
                   else Some c)))"

text \<open>
  The destructor, and \<^verbatim>\<open>delete\<close> of a connection (the destructor, then the storage
  is released):
  \<^verbatim>\<open>
  ServerSocket::~ServerSocket()
  {
      _status = "close";
      logger().debug("ServerSocket::~ServerSocket()");
      SetCloseAndDelete();
      delete _socket;
      _socket = nullptr;
      rem_sock(this);
  }
  \<close>
\<close>

definition ServerSocket_dtor :: "errc option \<Rightarrow> nat \<Rightarrow> 'u world \<Rightarrow> 'u world option" where
  "ServerSocket_dtor closing this w =
     (case objs w this of
        None \<Rightarrow> None
      | Some c \<Rightarrow>
          (let c = c\<lparr>status := ''close''\<rparr>;
               c = log_msg Debug ''ServerSocket::~ServerSocket()'' c
           in case SetCloseAndDelete closing c of
                None \<Rightarrow> None
              | Some c1 \<Rightarrow>
                  Some (rem_sock this (w\<lparr>objs := (objs w)(this \<mapsto> c1\<lparr>socket := None\<rparr>)\<rparr>))))"

definition delete_ServerSocket :: "errc option \<Rightarrow> nat \<Rightarrow> 'u world \<Rightarrow> 'u world option" where
  "delete_ServerSocket closing this w =
     (case ServerSocket_dtor closing this w of
        None \<Rightarrow> None
      | Some w1 \<Rightarrow> Some (w1\<lparr>objs := (objs w1)(this := None)\<rparr>))"

text \<open>
  The life of the connections of a process, as a sequence of events: a connection is
  created at an address with \<^verbatim>\<open>new\<close> (storage that holds no live object), given its
  socket, and deleted.
\<close>

datatype event = Create nat int | Install nat nat | Delete nat "errc option"

definition step :: "'u conn \<Rightarrow> event \<Rightarrow> 'u world \<Rightarrow> 'u world option" where
  "step fresh ev w =
     (case ev of
        Create this now \<Rightarrow>
          (if objs w this = None then Some (ServerSocket_ctor fresh now this w) else None)
      | Install this sock \<Rightarrow>
          (case objs w this of
             None \<Rightarrow> None
           | Some c \<Rightarrow> Some (w\<lparr>objs := (objs w)(this \<mapsto> set_connection sock c)\<rparr>))
      | Delete this closing \<Rightarrow> delete_ServerSocket closing this w)"

fun run :: "'u conn \<Rightarrow> event list \<Rightarrow> 'u world \<Rightarrow> 'u world option" where
  "run fresh [] w = Some w"
| "run fresh (ev # evs) w =
     (case step fresh ev w of None \<Rightarrow> None | Some w1 \<Rightarrow> run fresh evs w1)"

definition empty_world :: "'u world" where
  "empty_world = \<lparr>sock_list = {}, objs = (\<lambda>_. None)\<rparr>"

text \<open>
  Whether the connection at an address has been constructed and its destructor has
  not run since, read off the events alone.
\<close>

fun alive :: "nat \<Rightarrow> bool \<Rightarrow> event list \<Rightarrow> bool" where
  "alive a b [] = b"
| "alive a b (Create this now # evs) = alive a (b \<or> this = a) evs"
| "alive a b (Install this sock # evs) = alive a b evs"
| "alive a b (Delete this closing # evs) = alive a (b \<and> this \<noteq> a) evs"


section \<open>A connection for the examples\<close>

text \<open>
  A connection whose socket is installed and whose peer accepts every write, with the
  given input outstanding and nothing sent or logged yet.
\<close>

definition connected :: "arrival list \<Rightarrow> unit conn" where
  "connected input =
     \<lparr>socket = Some 1, start_time = 0, tid = 0, status = ''start'',
      got_first_line = False, got_http_header = False, got_websock_header = False,
      do_frame_io = False, url = [], webkey = [],
      wire_in = input, sent = [], write_error = None, allocs = [], logged = [], app = ()\<rparr>"

section \<open>The frame format, in the words of the spec\<close>

text \<open>The byte of a 32-bit mask that the code applies to the payload byte at offset \<open>k\<close>.\<close>

definition mask_byte :: "32 word \<Rightarrow> nat \<Rightarrow> byte" where
  "mask_byte msk k = ucast (drop_bit (8 * (k mod 4)) msk)"

text \<open>
  Unmasking as the spec words it: every payload byte is XOR-ed with the mask byte at
  its offset modulo four. (Masking by the client is the same operation.)
\<close>

definition xor_mask :: "byte list \<Rightarrow> byte list \<Rightarrow> byte list" where
  "xor_mask mk payload = map (\<lambda>k. payload ! k XOR mk ! (k mod 4)) [0..<length payload]"

text \<open>The big-endian bytes of an extended payload length, as they stand on the wire.\<close>

definition be16 :: "16 word \<Rightarrow> byte list" where
  "be16 w = [ucast (drop_bit 8 w), ucast w]"

definition be64 :: "64 word \<Rightarrow> byte list" where
  "be64 w = [ucast (drop_bit 56 w), ucast (drop_bit 48 w), ucast (drop_bit 40 w),
             ucast (drop_bit 32 w), ucast (drop_bit 24 w), ucast (drop_bit 16 w),
             ucast (drop_bit 8 w), ucast w]"

text \<open>
  What a client does to a frame before sending it: it sets the mask bit, inserts its
  four-byte mask key after the length, and XORs the payload with the key.
\<close>

definition client_mask :: "byte list \<Rightarrow> byte list \<Rightarrow> byte list" where
  "client_mask mk frame =
     (case frame of
        b0 # b1 # after \<Rightarrow>
          (let ext = (if b1 = 126 then 2 else if b1 = 127 then 8 else 0)
           in b0 # (b1 OR 0x80) # take ext after @ mk @ xor_mask mk (drop ext after))
      | _ \<Rightarrow> frame)"

text \<open>
  A frame from the server to the client in the words of the spec: the first byte is
  the fin bit and the opcode, then the length in one of its three encodings, with
  the mask bit clear, then the payload.
\<close>

definition unmasked_frame :: "byte \<Rightarrow> byte list \<Rightarrow> byte list" where
  "unmasked_frame opcode payload =
     (let n = length payload
      in (if n < 126 then [0x80 OR opcode, of_nat n]
          else if n < 65536 then [0x80 OR opcode, 126] @ be16 (of_nat n)
          else [0x80 OR opcode, 127] @ be64 (of_nat n)) @ payload)"

text \<open>Hooks for the examples: one that does nothing, and one that sends each unit back.\<close>

definition quiet_hook :: "unit conn \<Rightarrow> unit hook_result" where
  "quiet_hook c = (Returns (), (), [])"

definition echo_hook :: "byte list \<Rightarrow> unit conn \<Rightarrow> unit hook_result" where
  "echo_hook line c = (Returns (), (), [line])"

text \<open>The object at an address exists and has its socket.\<close>

definition has_socket :: "'u world \<Rightarrow> nat \<Rightarrow> bool" where
  "has_socket w a = (\<exists>c s. objs w a = Some c \<and> socket c = Some s)"

section \<open>Base64, in the words of RFC 4648\<close>

text \<open>The alphabet of RFC 4648, table 1: the value \<open>n\<close> is written as the character at index \<open>n\<close>.\<close>

definition base64_alphabet :: string where
  "base64_alphabet = ''ABCDEFGHIJKLMNOPQRSTUVWXYZabcdefghijklmnopqrstuvwxyz0123456789+/''"

text \<open>The character for a group of six bits.\<close>

definition base64_digit :: "byte \<Rightarrow> char" where
  "base64_digit s = base64_alphabet ! unat s"

text \<open>
  The input is taken in groups of three bytes, 24 bits, and each group is written as
  four characters, one for every six bits, the most significant first. A final group
  of two bytes gives three characters (the last from the four bits left, followed by
  two zero bits) and one \<open>=\<close>; a final group of one byte gives two characters (the
  second from the two bits left, followed by four zero bits) and two \<open>=\<close>.
\<close>

fun base64_rfc4648 :: "byte list \<Rightarrow> string" where
  "base64_rfc4648 (a # b # c # rest) =
     [base64_digit (drop_bit 2 a),
      base64_digit (push_bit 4 (a AND 3) OR drop_bit 4 b),
      base64_digit (push_bit 2 (b AND 15) OR drop_bit 6 c),
      base64_digit (c AND 63)] @ base64_rfc4648 rest"
| "base64_rfc4648 [a, b] =
     [base64_digit (drop_bit 2 a),
      base64_digit (push_bit 4 (a AND 3) OR drop_bit 4 b),
      base64_digit (push_bit 2 (b AND 15)),
      CHR ''='']"
| "base64_rfc4648 [a] =
     [base64_digit (drop_bit 2 a),
      base64_digit (push_bit 4 (a AND 3)),
      CHR ''='', CHR ''='']"
| "base64_rfc4648 [] = []"

section \<open>Properties of the scanner\<close>

lemma match_loop_offset:
  "match_loop tm i buf = (fst (match_loop tm 0 buf) + i, snd (match_loop tm 0 buf))"
proof (induction buf arbitrary: tm i)
  case Nil
  show ?case by simp
next
  case (Cons c rest)
  have a: "match_loop (if IAC = c then True else tm) (i + 1) rest =
           (fst (match_loop (if IAC = c then True else tm) 0 rest) + (i + 1),
            snd (match_loop (if IAC = c then True else tm) 0 rest))"
    by (rule Cons.IH)
  have b: "match_loop (if IAC = c then True else tm) (0 + 1) rest =
           (fst (match_loop (if IAC = c then True else tm) 0 rest) + (0 + 1),
            snd (match_loop (if IAC = c then True else tm) 0 rest))"
    by (rule Cons.IH)
  show ?case
    using a b by (simp add: Let_def)
qed

lemma match_loop_bound: "fst (match_loop tm i buf) \<le> i + length buf"
proof (induction buf arbitrary: tm i)
  case Nil
  show ?case by simp
next
  case (Cons c rest)
  have "fst (match_loop (if IAC = c then True else tm) (i + 1) rest) \<le> i + 1 + length rest"
    by (rule Cons.IH)
  then show ?case by (simp add: Let_def)
qed

lemma match_loop_no_match: "\<not> snd (match_loop tm i buf) \<Longrightarrow> fst (match_loop tm i buf) = i + length buf"
  by (induction buf arbitrary: tm i) (auto simp: Let_def split: if_splits)

text \<open>The value of \<^verbatim>\<open>telnet_mode\<close> after the loop has run over a range without a match.\<close>

definition mode_after :: "bool \<Rightarrow> byte list \<Rightarrow> bool" where
  "mode_after tm buf = (tm \<or> IAC \<in> set buf)"

lemma match_loop_append:
  "\<not> snd (match_loop tm i pre) \<Longrightarrow>
   match_loop tm i (pre @ post) = match_loop (mode_after tm pre) (i + length pre) post"
proof (induction pre arbitrary: tm i)
  case Nil
  show ?case by (simp add: mode_after_def)
next
  case (Cons c pre)
  let ?tm = "if IAC = c then True else tm"
  from Cons.prems have nm: "\<not> (c = 0x0A \<or> c = 0x04 \<or> (?tm \<and> c \<le> 0xF0))"
    by (auto simp: Let_def split: if_splits)
  with Cons.prems have rest: "\<not> snd (match_loop ?tm (i + 1) pre)"
    by (auto simp: Let_def split: if_splits)
  have "match_loop tm i ((c # pre) @ post) = match_loop ?tm (i + 1) (pre @ post)"
    using nm by (auto simp: Let_def)
  also have "\<dots> = match_loop (mode_after ?tm pre) (i + 1 + length pre) post"
    by (rule Cons.IH [OF rest])
  also have "mode_after ?tm pre = mode_after tm (c # pre)"
    by (auto simp: mode_after_def)
  finally show ?case by simp
qed

lemma match_loop_prefix:
  "match_loop tm i buf = (k, True) \<Longrightarrow> match_loop tm i (take (k - i) buf @ other) = (k, True)"
proof (induction buf arbitrary: tm i)
  case Nil
  then show ?case by simp
next
  case (Cons c rest)
  let ?tm = "if IAC = c then True else tm"
  show ?case
  proof (cases "c = 0x0A \<or> c = 0x04 \<or> (?tm \<and> c \<le> 0xF0)")
    case True
    with Cons.prems have "k = i + 1" by (auto simp: Let_def)
    with True show ?thesis by (auto simp: Let_def)
  next
    case False
    with Cons.prems have r: "match_loop ?tm (i + 1) rest = (k, True)"
      by (auto simp: Let_def)
    have "i + 1 \<le> k"
      using match_loop_offset [of ?tm "i + 1" rest] r by simp
    then have "k - i = Suc (k - (i + 1))" by arith
    then have tk: "take (k - i) (c # rest) = c # take (k - (i + 1)) rest"
      by simp
    from Cons.IH [OF r] False show ?thesis
      unfolding tk by (auto simp: Let_def)
  qed
qed


text \<open>
  A range holds no unit terminator: no line feed, no EOT byte, and no byte \<open>\<le> 0xF0\<close>
  at or after its first IAC byte.
\<close>

definition no_terminator :: "byte list \<Rightarrow> bool" where
  "no_terminator buf =
     (0x0A \<notin> set buf \<and> 0x04 \<notin> set buf \<and>
      (\<forall>c \<in> set (dropWhile (\<lambda>c. c \<noteq> IAC) buf). 0xF0 < c))"

lemma match_loop_no_match_iff:
  "\<not> snd (match_loop tm i buf) \<longleftrightarrow>
     0x0A \<notin> set buf \<and> 0x04 \<notin> set buf \<and>
     (if tm then \<forall>c \<in> set buf. 0xF0 < c
      else \<forall>c \<in> set (dropWhile (\<lambda>c. c \<noteq> IAC) buf). 0xF0 < c)"
proof (induction buf arbitrary: tm i)
  case Nil
  show ?case by simp
next
  case (Cons c rest)
  have iac: "(0xF0::byte) < IAC" by (simp add: IAC_def)
  show ?case
  proof (cases "IAC = c")
    case True
    then have "c \<noteq> 0x0A" "c \<noteq> 0x04" "\<not> c \<le> 0xF0"
      by (auto simp: IAC_def)
    then show ?thesis
      using True iac Cons.IH [of True "i + 1"] by (auto simp: Let_def)
  next
    case False
    then show ?thesis
      using Cons.IH [of tm "i + 1"] by (auto simp: Let_def not_le)
  qed
qed

lemma no_terminator_no_match: "no_terminator buf \<longleftrightarrow> \<not> snd (match_eol_or_escape buf)"
  by (simp add: no_terminator_def match_eol_or_escape_def match_loop_no_match_iff [of False 0 buf])

lemma match_after_quiet_prefix:
  "no_terminator pre \<Longrightarrow>
   match_eol_or_escape (pre @ post) = match_loop (IAC \<in> set pre) (length pre) post"
  using match_loop_append [of False 0 pre post]
  by (simp add: no_terminator_no_match match_eol_or_escape_def mode_after_def)


subsection \<open>Claim C6: match positions within one call\<close>

text \<open>
  C6, as the code has it. A buffer \<open>pre @ 0x0A # post\<close> whose part \<open>pre\<close> before the line
  feed holds no terminator (no LF, no EOT byte 0x04, no byte \<open>\<le> 0xF0\<close> at or after an IAC)
  is matched exactly at that first line feed, whatever bytes \<open>post\<close> follow; every buffer
  that contains a line feed is matched at or before its first line feed. An EOT byte
  after such a prefix (in particular a lone EOT byte) is matched at that byte.
  \<open>[0xFF, 0x05]\<close> is matched at the second byte, \<open>[0xFF, 0xFF]\<close> is not matched, and
  \<open>[0xFF, 0xFF]\<close> followed by a byte \<open>\<le> 0xF0\<close> is matched at that third byte.
\<close>

theorem scanner_match_positions:
  "(no_terminator pre \<longrightarrow>
      match_eol_or_escape (pre @ 0x0A # post) = (length pre + 1, True)) \<and>
   (snd (match_eol_or_escape (pre @ 0x0A # post)) \<and>
      fst (match_eol_or_escape (pre @ 0x0A # post)) \<le> length pre + 1) \<and>
   (no_terminator pre \<longrightarrow>
      match_eol_or_escape (pre @ 0x04 # post) = (length pre + 1, True)) \<and>
   match_eol_or_escape [0x04] = (1, True) \<and>
   match_eol_or_escape [0xFF, 0x05] = (2, True) \<and>
   match_eol_or_escape [0xFF, 0xFF] = (2, False) \<and>
   (c \<le> 0xF0 \<longrightarrow> match_eol_or_escape ([0xFF, 0xFF] @ c # post) = (3, True))"
proof -
  have lf: "match_eol_or_escape (pre @ 0x0A # post) = (length pre + 1, True)"
    if "no_terminator pre"
    using match_after_quiet_prefix [OF that, of "0x0A # post"] by (simp add: Let_def)
  have eot: "match_eol_or_escape (pre @ 0x04 # post) = (length pre + 1, True)"
    if "no_terminator pre"
    using match_after_quiet_prefix [OF that, of "0x04 # post"] by (simp add: Let_def)
  have early: "snd (match_eol_or_escape (pre @ 0x0A # post)) \<and>
      fst (match_eol_or_escape (pre @ 0x0A # post)) \<le> length pre + 1"
  proof (cases "no_terminator pre")
    case True
    then show ?thesis by (simp add: lf)
  next
    case False
    then have m: "snd (match_loop False 0 pre)"
      by (simp add: no_terminator_no_match match_eol_or_escape_def)
    then obtain k where k: "match_loop False 0 pre = (k, True)"
      by (cases "match_loop False 0 pre") auto
    have "k \<le> length pre"
      using match_loop_bound [of False 0 pre] k by simp
    have e: "take (k - 0) pre @ (drop k pre @ 0x0A # post) = pre @ 0x0A # post"
      by simp
    have "match_loop False 0 (take (k - 0) pre @ (drop k pre @ 0x0A # post)) = (k, True)"
      by (rule match_loop_prefix [OF k])
    then have "match_loop False 0 (pre @ 0x0A # post) = (k, True)"
      unfolding e .
    with \<open>k \<le> length pre\<close> show ?thesis
      by (simp add: match_eol_or_escape_def)
  qed
  have c1: "match_eol_or_escape [0x04] = (1, True)"
    by (simp add: match_eol_or_escape_def Let_def)
  have c2: "match_eol_or_escape [0xFF, 0x05] = (2, True)"
    by (simp add: match_eol_or_escape_def Let_def IAC_def)
  have c3: "match_eol_or_escape [0xFF, 0xFF] = (2, False)"
    by (simp add: match_eol_or_escape_def Let_def IAC_def)
  have c4: "match_eol_or_escape ([0xFF, 0xFF] @ c # post) = (3, True)" if "c \<le> 0xF0"
    using that by (simp add: match_eol_or_escape_def Let_def IAC_def)
  show ?thesis
    using lf eot early c1 c2 c3 c4 by blast
qed

theorem scanner_match_positions_witness:
  "no_terminator [0x61, 0x0D] \<and>
   match_eol_or_escape ([0x61, 0x0D] @ 0x0A # [0x62, 0x0A, 0x04]) = (3, True) \<and>
   match_eol_or_escape ([0x61, 0x0D] @ 0x04 # [0x62, 0x0A, 0x04]) = (3, True) \<and>
   (0x05 :: byte) \<le> 0xF0 \<and>
   match_eol_or_escape ([0xFF, 0xFF] @ 0x05 # [0x62, 0x0A, 0x04]) = (3, True)"
proof -
  have q: "no_terminator [0x61, 0x0D]"
    by (simp add: no_terminator_def IAC_def)
  have le: "(0x05 :: byte) \<le> 0xF0" by simp
  show ?thesis
    using q le scanner_match_positions [of "[0x61, 0x0D]" "[0x62, 0x0A, 0x04]" "0x05"]
    by simp
qed

text \<open>
  The claim as the spec words it (a match at the first line feed for any byte
  sequence that contains one) fails: in \<open>[0x04, 0x0A]\<close> the first line feed is the
  second byte, and the scanner reports the match at the first byte, the EOT.
\<close>

theorem scanner_first_lf_counterexample:
  "0x0A \<in> set [0x04, 0x0A :: byte] \<and> [0x04, 0x0A :: byte] ! 0 \<noteq> 0x0A \<and>
   [0x04, 0x0A :: byte] ! 1 = 0x0A \<and>
   match_eol_or_escape [0x04, 0x0A] = (1, True) \<and>
   match_eol_or_escape [0x04, 0x0A] \<noteq> (2, True)"
  by (simp add: match_eol_or_escape_def Let_def)

subsection \<open>Claim C3: the IAC flag and successive calls\<close>

text \<open>
  The scanner, call by call. \<^verbatim>\<open>telnet_mode\<close> is a local variable, set to false at the
  start of every call, so the result of a call is determined by the bytes of its own
  range. After a call over \<open>pre\<close> that has observed an IAC byte and reported no match,
  a following call whose range begins with a byte \<open>c \<le> 0xF0\<close> that is neither a line
  feed nor EOT does not report a match at that byte. Within one call the flag works:
  if the range is \<open>pre @ c # rest\<close>, the call reports the match at \<open>c\<close>. Each call
  scans forward only: the returned offset is the number of bytes examined, it is at
  most the size of the range, equals it when there is no match, and a match depends
  only on the bytes up to the returned offset.
\<close>

lemma scanner_iac_flag_is_per_call:
  "(no_terminator pre \<and> IAC \<in> set pre \<and> c \<le> 0xF0 \<and> c \<noteq> 0x0A \<and> c \<noteq> 0x04 \<longrightarrow>
      match_eol_or_escape pre = (length pre, False) \<and>
      match_eol_or_escape (c # rest) \<noteq> (1, True) \<and>
      match_eol_or_escape [c] = (1, False)) \<and>
   (no_terminator pre \<and> IAC \<in> set pre \<and> c \<le> 0xF0 \<longrightarrow>
      match_eol_or_escape (pre @ c # rest) = (length pre + 1, True)) \<and>
   fst (match_eol_or_escape buf) \<le> length buf \<and>
   (\<not> snd (match_eol_or_escape buf) \<longrightarrow> fst (match_eol_or_escape buf) = length buf) \<and>
   (match_eol_or_escape buf = (k, True) \<longrightarrow>
      match_eol_or_escape (take k buf @ other) = (k, True))"
proof -
  have first: "match_eol_or_escape pre = (length pre, False)" if "no_terminator pre"
  proof -
    from that have "\<not> snd (match_eol_or_escape pre)"
      by (simp add: no_terminator_no_match)
    then show ?thesis
      using match_loop_no_match [of False 0 pre]
      by (cases "match_eol_or_escape pre") (simp add: match_eol_or_escape_def)
  qed
  have fresh: "match_eol_or_escape (c # rest) \<noteq> (1, True) \<and> match_eol_or_escape [c] = (1, False)"
    if "c \<le> 0xF0" "c \<noteq> 0x0A" "c \<noteq> 0x04"
  proof -
    from that have ni: "IAC \<noteq> c" by (auto simp: IAC_def)
    have "Suc 0 \<le> fst (match_loop False (Suc 0) rest)"
      using match_loop_offset [of False "Suc 0" rest] by simp
    moreover have "fst (match_loop False (Suc 0) rest) = Suc 0 \<longrightarrow> \<not> snd (match_loop False (Suc 0) rest)"
    proof (cases rest)
      case Nil
      then show ?thesis by simp
    next
      case (Cons d ds)
      have "Suc (Suc 0) \<le> fst (match_loop (if IAC = d then True else False) (Suc (Suc 0)) ds)"
        using match_loop_offset [of "if IAC = d then True else False" "Suc (Suc 0)" ds] by simp
      then show ?thesis
        using Cons by (auto simp: Let_def)
    qed
    ultimately show ?thesis
      using that ni
      by (cases "match_loop False (Suc 0) rest") (auto simp: match_eol_or_escape_def Let_def)
  qed
  have within: "match_eol_or_escape (pre @ c # rest) = (length pre + 1, True)"
    if "no_terminator pre" "IAC \<in> set pre" "c \<le> 0xF0"
    using match_after_quiet_prefix [OF that(1), of "c # rest"] that(2,3)
    by (simp add: Let_def)
  have bound: "fst (match_eol_or_escape buf) \<le> length buf"
    using match_loop_bound [of False 0 buf] by (simp add: match_eol_or_escape_def)
  have whole: "fst (match_eol_or_escape buf) = length buf" if "\<not> snd (match_eol_or_escape buf)"
    using match_loop_no_match [of False 0 buf] that by (simp add: match_eol_or_escape_def)
  have prefix: "match_eol_or_escape (take k buf @ other) = (k, True)"
    if "match_eol_or_escape buf = (k, True)"
    using match_loop_prefix [of False 0 buf k other] that
    by (simp add: match_eol_or_escape_def)
  show ?thesis
    using first fresh within bound whole prefix by blast
qed

lemma scanner_iac_flag_is_per_call_example:
  "no_terminator [0x61, 0xFF] \<and> IAC \<in> set [0x61, 0xFF] \<and> (0x05 :: byte) \<le> 0xF0 \<and>
   match_eol_or_escape [0x61, 0xFF] = (2, False) \<and>
   match_eol_or_escape (0x05 # [0x62]) \<noteq> (1, True) \<and>
   match_eol_or_escape [0x05] = (1, False) \<and>
   match_eol_or_escape ([0x61, 0xFF] @ 0x05 # [0x62]) = (3, True) \<and>
   match_eol_or_escape ([0x61, 0xFF, 0x05, 0x62]) = (3, True) \<and>
   match_eol_or_escape (take 3 [0x61, 0xFF, 0x05, 0x62] @ [0x0A, 0x0A]) = (3, True)"
proof -
  have q: "no_terminator [0x61, 0xFF]"
    by (simp add: no_terminator_def IAC_def)
  have i: "IAC \<in> set [0x61, 0xFF]"
    by (simp add: IAC_def)
  have le: "(0x05 :: byte) \<le> 0xF0" by simp
  have m: "match_eol_or_escape ([0x61, 0xFF, 0x05, 0x62]) = (3, True)"
    by (simp add: match_eol_or_escape_def Let_def IAC_def)
  show ?thesis
    using q i le m
      scanner_iac_flag_is_per_call [of "[0x61, 0xFF]" "0x05" "[0x62]" "[0x61, 0xFF, 0x05, 0x62]" 3 "[0x0A, 0x0A]"]
    by simp
qed

text \<open>
  C3. The claim is that the scanner keeps its just-past-an-IAC-byte flag from one
  call to the next, so that a call whose range begins with a byte \<open>\<le> 0xF0\<close>, made after
  a call that ended having observed an IAC byte, reports a match at that byte. The
  code does not: the flag is the local \<^verbatim>\<open>telnet_mode\<close>, false at the start of every call.
  The call over \<open>[0xFF]\<close> observes an IAC and ends without a match; the next call, over
  the newly arrived byte \<open>0x05 \<le> 0xF0\<close>, reports no match at that byte, while one call
  over both bytes reports the match at the second byte. The comment above the scanner
  gives its goal as forwarding all IAC sequences immediately; here whether the
  sequence is forwarded depends on where the stream was cut between two reads.
\<close>

theorem scanner_iac_lost_between_calls:
  "match_eol_or_escape [0xFF] = (1, False) \<and> (0x05 :: byte) \<le> 0xF0 \<and>
   match_eol_or_escape [0x05] = (1, False) \<and>
   match_eol_or_escape [0xFF, 0x05] = (2, True)"
  by (simp add: match_eol_or_escape_def Let_def IAC_def)


section \<open>Properties of the frame encoder\<close>

lemma bit_word_128: "bit (128 :: 'a::semiring_bit_operations) n \<longleftrightarrow> possible_bit TYPE('a) n \<and> n = 7"
proof -
  have e: "(128 :: 'a) = 2 ^ 7" by simp
  show ?thesis
    by (subst e, subst bit_exp_iff) auto
qed

lemma ucast_small_high_bit: "(p :: 64 word) < 126 \<Longrightarrow> (ucast p :: byte) AND 0x80 = 0"
proof -
  assume "p < 126"
  moreover have "(126 :: 64 word) < 2 ^ 7" by simp
  ultimately have "p < 2 ^ 7" by (rule order_less_trans)
  then have e: "p AND mask 7 = p" by (rule less_mask_eq)
  have "(ucast (p AND mask 7) :: byte) AND 0x80 = 0"
    by (rule bit_word_eqI) (auto simp add: bit_simps bit_word_128)
  then show ?thesis by (simp add: e)
qed


lemma Send_ok:
  "socket c \<noteq> None \<Longrightarrow> write_error c = None \<Longrightarrow> Send cmd c = (Returns (), c\<lparr>sent := sent c @ cmd\<rparr>)"
  by (auto simp: Send_def)

subsection \<open>Claim C8: the length encodings of send\_websocket\<close>

text \<open>
  C8. On a connection with its socket installed and a peer that accepts the writes,
  \<^verbatim>\<open>send_websocket\<close> writes a header followed by the payload itself. The first header
  byte is always \<open>0x81\<close> and the mask bit (the high bit of the second byte) is never
  set. A payload of 125 bytes gets the two-byte header \<open>0x81, 125\<close>; one of 126 bytes
  the four-byte header \<open>0x81, 126, 0, 126\<close> (length code 126, then the length in two
  bytes, big-endian); one of 65536 bytes the ten-byte header \<open>0x81, 127\<close> and
  \<open>0, 0, 0, 0, 0, 1, 0, 0\<close> (length code 127, then the length in eight bytes,
  big-endian).
\<close>

theorem send_websocket_length_encoding:
  assumes "socket c \<noteq> None" and "write_error c = None"
  shows "\<exists>header.
           send_websocket cmd c = (Returns (), c\<lparr>sent := sent c @ header @ cmd\<rparr>) \<and>
           header ! 0 = 0x81 \<and> header ! 1 AND 0x80 = 0 \<and> length header \<in> {2, 4, 10} \<and>
           (length cmd = 125 \<longrightarrow> header = [0x81, 125]) \<and>
           (length cmd = 126 \<longrightarrow> header = [0x81, 126, 0, 126]) \<and>
           (length cmd = 65536 \<longrightarrow> header = [0x81, 127, 0, 0, 0, 0, 0, 1, 0, 0])"
proof -
  let ?paylen = "of_nat (length cmd) :: 64 word"
  have n125: "\<not> ?paylen < 126 \<Longrightarrow> length cmd \<noteq> 125" by auto
  have n126: "?paylen < 126 \<Longrightarrow> length cmd \<noteq> 126" by auto
  have n65536: "?paylen < 65536 \<Longrightarrow> length cmd \<noteq> 65536" by auto
  show ?thesis
  proof (cases "?paylen < 126")
    case True
    let ?h = "[0x81, ucast ?paylen] :: byte list"
    have "send_websocket cmd c = (Returns (), c\<lparr>sent := sent c @ ?h @ cmd\<rparr>)"
      using True assms by (simp add: send_websocket_def Let_def Send_ok)
    moreover have "?h ! 1 AND 0x80 = 0"
      using ucast_small_high_bit [OF True] by simp
    moreover have "length cmd = 125 \<longrightarrow> ?h = [0x81, 125]" by auto
    ultimately show ?thesis
      using n126 [OF True] True by (intro exI [of _ ?h]) auto
  next
    case False
    show ?thesis
    proof (cases "?paylen < 65536")
      case True
      let ?h = "[0x81, 126, ucast (drop_bit 8 ?paylen AND 0xff), ucast (?paylen AND 0xff)] :: byte list"
      have "send_websocket cmd c = (Returns (), c\<lparr>sent := sent c @ ?h @ cmd\<rparr>)"
        using True False assms by (simp add: send_websocket_def Let_def Send_ok)
      moreover have "length cmd = 126 \<longrightarrow> ?h = [0x81, 126, 0, 126]" by auto
      ultimately show ?thesis
        using n125 [OF False] n65536 [OF True] by (intro exI [of _ ?h]) auto
    next
      case nb: False
      let ?h = "[0x81, 127,
                 ucast (drop_bit 56 ?paylen AND 0xff), ucast (drop_bit 48 ?paylen AND 0xff),
                 ucast (drop_bit 40 ?paylen AND 0xff), ucast (drop_bit 32 ?paylen AND 0xff),
                 ucast (drop_bit 24 ?paylen AND 0xff), ucast (drop_bit 16 ?paylen AND 0xff),
                 ucast (drop_bit 8 ?paylen AND 0xff), ucast (?paylen AND 0xff)] :: byte list"
      have "send_websocket cmd c = (Returns (), c\<lparr>sent := sent c @ ?h @ cmd\<rparr>)"
        using nb False assms by (simp add: send_websocket_def Let_def Send_ok)
      moreover have "length cmd = 65536 \<longrightarrow> ?h = [0x81, 127, 0, 0, 0, 0, 0, 1, 0, 0]" by auto
      moreover have "length cmd \<noteq> 126"
        using nb by auto
      ultimately show ?thesis
        using n125 [OF False] by (intro exI [of _ ?h]) auto
    qed
  qed
qed

theorem send_websocket_length_encoding_witness:
  "socket (connected []) \<noteq> None \<and> write_error (connected []) = None \<and>
   send_websocket (replicate 125 0x61) (connected []) =
     (Returns (), (connected [])\<lparr>sent := [0x81, 125] @ replicate 125 0x61\<rparr>) \<and>
   send_websocket (replicate 126 0x61) (connected []) =
     (Returns (), (connected [])\<lparr>sent := [0x81, 126, 0, 126] @ replicate 126 0x61\<rparr>) \<and>
   send_websocket (replicate 65536 0x61) (connected []) =
     (Returns (), (connected [])\<lparr>sent := [0x81, 127, 0, 0, 0, 0, 0, 1, 0, 0] @ replicate 65536 0x61\<rparr>)"
proof -
  have s: "socket (connected []) \<noteq> None" and w: "write_error (connected []) = None"
    and e: "sent (connected []) = []"
    by (simp_all add: connected_def)
  show ?thesis
    using s w
      send_websocket_length_encoding [OF s w, of "replicate 125 0x61"]
      send_websocket_length_encoding [OF s w, of "replicate 126 0x61"]
      send_websocket_length_encoding [OF s w, of "replicate 65536 0x61"]
    by (auto simp: e)
qed



section \<open>Properties of the frame decoder\<close>

subsection \<open>Bytes of 32-bit words\<close>


lemma byte_mask_32: "(0xff :: 32 word) = mask 8"
  by (simp add: mask_eq_exp_minus_1)

lemma ucast_xor_byte:
  "(ucast (x XOR y :: 32 word) :: byte) = ucast x XOR ucast y"
  by (rule bit_word_eqI) (auto simp: bit_simps)

lemma ucast_xor_low_byte:
  "(ucast ((ucast (a :: byte) :: 32 word) XOR (drop_bit k m AND 0xff)) :: byte) = a XOR ucast (drop_bit k m)"
  unfolding byte_mask_32 by (rule bit_word_eqI) (auto simp: bit_simps)

lemma load32_byte0: "(ucast (load32 mem i) :: byte) = mem ! i"
  by (rule bit_word_eqI) (auto simp: load32_def bit_simps dest: bit_imp_le_length)

lemma load32_byte1: "(ucast (drop_bit 8 (load32 mem i)) :: byte) = mem ! (i + 1)"
  by (rule bit_word_eqI) (auto simp: load32_def bit_simps dest: bit_imp_le_length)

lemma load32_byte2: "(ucast (drop_bit 16 (load32 mem i)) :: byte) = mem ! (i + 2)"
  by (rule bit_word_eqI) (auto simp: load32_def bit_simps dest: bit_imp_le_length)

lemma load32_byte3: "(ucast (drop_bit 24 (load32 mem i)) :: byte) = mem ! (i + 3)"
  by (rule bit_word_eqI) (auto simp: load32_def bit_simps dest: bit_imp_le_length)

lemma load32_byte:
  assumes "j < 4"
  shows "(ucast (drop_bit (8 * j) (load32 mem i)) :: byte) = mem ! (i + j)"
proof -
  from assms consider "j = 0" | "j = 1" | "j = 2" | "j = 3" by arith
  then show ?thesis
    by cases (simp_all add: load32_byte0 load32_byte1 load32_byte2 load32_byte3)
qed

lemma mask_byte_load32: "mask_byte (load32 mk 0) k = mk ! (k mod 4)"
  using load32_byte [of "k mod 4" mk 0] by (simp add: mask_byte_def)

lemma length_store32 [simp]: "length (store32 mem i w) = length mem"
  by (simp add: store32_def)

lemma store32_xor_nth:
  assumes "i + 3 < length mem" and "k < length mem"
  shows "store32 mem i (load32 mem i XOR msk) ! k =
         (if i \<le> k \<and> k < i + 4 then mem ! k XOR ucast (drop_bit (8 * (k - i)) msk) else mem ! k)"
proof (cases "i \<le> k \<and> k < i + 4")
  case False
  then show ?thesis by (auto simp: store32_def)
next
  case True
  then consider "k = i" | "k = i + 1" | "k = i + 2" | "k = i + 3" by arith
  then show ?thesis
  proof cases
    case 1
    then show ?thesis
      using assms by (simp add: store32_def ucast_xor_byte load32_byte0)
  next
    case 2
    then show ?thesis
      using assms by (simp add: store32_def ucast_xor_byte load32_byte1)
  next
    case 3
    then show ?thesis
      using assms by (simp add: store32_def ucast_xor_byte load32_byte2)
  next
    case 4
    then show ?thesis
      using assms by (simp add: store32_def ucast_xor_byte load32_byte3)
  qed
qed

subsection \<open>The unmasking loops compute the XOR with the repeated mask\<close>

lemma offset_in_word:
  assumes "0 \<le> i" "i mod 4 = 0" "nat i \<le> k" "k < nat i + 4"
  shows "k - nat i = k mod 4"
proof -
  from assms(1,2) have "nat i mod 4 = 0"
    by arith
  then obtain q where q: "nat i = 4 * q" by (auto simp: mod_eq_0_iff_dvd)
  with assms(3,4) have "k = 4 * q + (k - nat i)" "k - nat i < 4" by auto
  then have "k mod 4 = (k - nat i) mod 4"
    by (metis mod_mult_self4)
  with \<open>k - nat i < 4\<close> show ?thesis by simp
qed

lemma ws_unmask_bulk_spec:
  assumes "0 \<le> i" "i mod 4 = 0" "paylen < int (length data)"
    and "ws_unmask_bulk msk paylen i data = (i', data')"
  shows "length data' = length data \<and> i \<le> i' \<and> i' mod 4 = 0 \<and> paylen - 4 < i' \<and>
         (i \<le> paylen \<longrightarrow> i' \<le> paylen) \<and>
         (\<forall>k < length data. data' ! k =
            (if nat i \<le> k \<and> k < nat i' then data ! k XOR mask_byte msk k else data ! k))"
  using assms
proof (induction msk paylen i data rule: ws_unmask_bulk.induct)
  case (1 msk paylen i data)
  show ?case
  proof (cases "i \<le> paylen - 4")
    case False
    with "1.prems"(4) have "i' = i" "data' = data"
      by (simp_all add: ws_unmask_bulk.simps)
    with False "1.prems" show ?thesis by auto
  next
    case True
    let ?d1 = "store32 data (nat i) (load32 data (nat i) XOR msk)"
    from True "1.prems"(4) have rec: "ws_unmask_bulk msk paylen (i + 4) ?d1 = (i', data')"
      by (simp add: ws_unmask_bulk.simps [of msk paylen i data])
    have p1: "0 \<le> i + 4" "(i + 4) mod 4 = 0" "paylen < int (length ?d1)"
      using "1.prems" by simp_all
    note ih = "1.IH" [OF True p1 rec]
    have inb: "nat i + 3 < length data"
      using True "1.prems"(1,3) by arith
    have d1: "?d1 ! k = (if nat i \<le> k \<and> k < nat i + 4 then data ! k XOR mask_byte msk k else data ! k)"
      if "k < length data" for k
    proof (cases "nat i \<le> k \<and> k < nat i + 4")
      case False
      then show ?thesis
        using store32_xor_nth [OF inb that, of msk] by auto
    next
      case True
      then have "k - nat i = k mod 4"
        using offset_in_word [of i k] "1.prems"(1,2) by simp
      with True show ?thesis
        using store32_xor_nth [OF inb that, of msk] by (simp add: mask_byte_def)
    qed
    have "data' ! k = (if nat i \<le> k \<and> k < nat i' then data ! k XOR mask_byte msk k else data ! k)"
      if "k < length data" for k
    proof -
      from ih that have e: "data' ! k =
          (if nat (i + 4) \<le> k \<and> k < nat i' then ?d1 ! k XOR mask_byte msk k else ?d1 ! k)"
        by simp
      from ih have "i + 4 \<le> i'" by simp
      then show ?thesis
        using e d1 [OF that] "1.prems"(1) by (auto simp: nat_add_distrib)
    qed
    with ih True show ?thesis by auto
  qed
qed

lemma ws_unmask_tail_spec:
  assumes "nat i + r \<le> length data" "0 \<le> i" "i mod 4 = 0" "r < 4"
  shows "length (foldl (\<lambda>data j. data[nat i + j :=
                ucast ((ucast (data ! (nat i + j)) :: 32 word) XOR (drop_bit (8 * j) msk AND 0xff))])
              data [0..<r]) = length data \<and>
         (\<forall>k < length data.
            foldl (\<lambda>data j. data[nat i + j :=
                ucast ((ucast (data ! (nat i + j)) :: 32 word) XOR (drop_bit (8 * j) msk AND 0xff))])
              data [0..<r] ! k =
            (if nat i \<le> k \<and> k < nat i + r then data ! k XOR mask_byte msk k else data ! k))"
  using assms
proof (induction r)
  case 0
  show ?case by auto
next
  case (Suc r)
  let ?f = "\<lambda>data j. data[nat i + j :=
                ucast ((ucast (data ! (nat i + j)) :: 32 word) XOR (drop_bit (8 * j) msk AND 0xff))]"
  let ?d = "foldl ?f data [0..<r]"
  from Suc have ih: "length ?d = length data"
      "\<And>k. k < length data \<Longrightarrow>
         ?d ! k = (if nat i \<le> k \<and> k < nat i + r then data ! k XOR mask_byte msk k else data ! k)"
    by simp_all
  have step: "foldl ?f data [0..<Suc r] = ?f ?d r"
    by simp
  have m: "(nat i + r) mod 4 = r"
    using offset_in_word [of i "nat i + r"] Suc.prems by simp
  have mb: "mask_byte msk (nat i + r) = ucast (drop_bit (8 * r) msk)"
    by (simp add: mask_byte_def m)
  have len: "length (?f ?d r) = length data"
    using ih(1) by simp
  have "?f ?d r ! k =
      (if nat i \<le> k \<and> k < nat i + Suc r then data ! k XOR mask_byte msk k else data ! k)"
    if "k < length data" for k
  proof (cases "k = nat i + r")
    case True
    then show ?thesis
      using that ih(1) ih(2) [OF that] by (simp add: ucast_xor_low_byte mb)
  next
    case False
    then show ?thesis
      using that ih(1) ih(2) [OF that] by auto
  qed
  with len show ?case
    unfolding step by blast
qed

lemma bulk_end:
  assumes "(i' :: int) mod 4 = 0" "int n - 4 < i'" "i' \<le> int n" "0 \<le> i'"
  shows "nat i' + nat (int n mod 4) = n"
proof -
  from assms(1) obtain q where q: "i' = 4 * q" by (auto simp: mod_eq_0_iff_dvd)
  have "int n = 4 * (int n div 4) + int n mod 4" by simp
  moreover have "0 \<le> int n mod 4" "int n mod 4 < 4" by simp_all
  ultimately have "q = int n div 4"
    using assms(2,3) q by linarith
  with q have "i' + int n mod 4 = int n" by simp
  with assms(4) show ?thesis by linarith
qed

lemma unmask_blob:
  assumes "length payload = n"
  shows "(case ws_unmask_bulk msk (int n) 0 (payload @ [0]) of
            (i, data) \<Rightarrow> (ws_unmask_tail msk (int n) i data)[n := 0]) =
         map (\<lambda>k. payload ! k XOR mask_byte msk k) [0..<n] @ [0]"
proof -
  let ?blob = "payload @ [0]"
  obtain i' d1 where b: "ws_unmask_bulk msk (int n) 0 ?blob = (i', d1)"
    by (cases "ws_unmask_bulk msk (int n) 0 ?blob")
  have "length d1 = length ?blob \<and> 0 \<le> i' \<and> i' mod 4 = 0 \<and> int n - 4 < i' \<and>
         (0 \<le> int n \<longrightarrow> i' \<le> int n) \<and>
         (\<forall>k < length ?blob. d1 ! k =
            (if nat 0 \<le> k \<and> k < nat i' then ?blob ! k XOR mask_byte msk k else ?blob ! k))"
    by (rule ws_unmask_bulk_spec [OF _ _ _ b]) (simp_all add: assms)
  then have l1: "length d1 = n + 1" and i0: "0 \<le> i'" and i4: "i' mod 4 = 0"
    and lo: "int n - 4 < i'" and hi: "i' \<le> int n"
    and d1: "\<And>k. k < n + 1 \<Longrightarrow> d1 ! k = (if k < nat i' then ?blob ! k XOR mask_byte msk k else ?blob ! k)"
    using assms by auto
  let ?r = "nat (int n mod 4)"
  have e: "nat i' + ?r = n" by (rule bulk_end [OF i4 lo hi i0])
  have r4: "?r < 4" by simp
  let ?d2 = "ws_unmask_tail msk (int n) i' d1"
  have t: "length ?d2 = length d1 \<and>
      (\<forall>k < length d1. ?d2 ! k =
         (if nat i' \<le> k \<and> k < nat i' + ?r then d1 ! k XOR mask_byte msk k else d1 ! k))"
    unfolding ws_unmask_tail_def
    by (rule ws_unmask_tail_spec [OF _ i0 i4 r4]) (simp add: e l1)
  then have l2: "length ?d2 = n + 1"
    and d2: "\<And>k. k < n + 1 \<Longrightarrow> ?d2 ! k =
         (if nat i' \<le> k \<and> k < n then d1 ! k XOR mask_byte msk k else d1 ! k)"
    using l1 e by auto
  have "?d2[n := 0] = map (\<lambda>k. payload ! k XOR mask_byte msk k) [0..<n] @ [0]"
  proof (rule nth_equalityI)
    show "length (?d2[n := 0]) = length (map (\<lambda>k. payload ! k XOR mask_byte msk k) [0..<n] @ [0])"
      using l2 by simp
  next
    fix k
    assume "k < length (?d2[n := 0])"
    then have k: "k < n + 1" using l2 by simp
    show "?d2[n := 0] ! k = (map (\<lambda>k. payload ! k XOR mask_byte msk k) [0..<n] @ [0]) ! k"
    proof (cases "k = n")
      case True
      then show ?thesis using l2 by (simp add: nth_append)
    next
      case False
      with k have kn: "k < n" by simp
      then have "?d2 ! k = payload ! k XOR mask_byte msk k"
        using d2 [OF k] d1 [OF k] assms by (auto simp: nth_append)
      with kn False show ?thesis by (simp add: nth_append)
    qed
  qed
  with b show ?thesis by simp
qed


lemma ntohs_be16: "ntohs (be16 w) = w"
  by (rule bit_word_eqI) (auto simp: ntohs_def be16_def bit_simps dest: bit_imp_le_length)

lemma byte_position:
  assumes "(n :: nat) < 32"
  obtains "n < 8" | m where "n = 8 + m" "m < 8" | m where "n = 16 + m" "m < 8"
    | m where "n = 24 + m" "m < 8"
proof -
  from assms consider "n < 8" | "8 \<le> n \<and> n < 16" | "16 \<le> n \<and> n < 24" | "24 \<le> n \<and> n < 32"
    by arith
  then show thesis
  proof cases
    case 1
    then show ?thesis by (rule that(1))
  next
    case 2
    then have "n = 8 + (n - 8)" "n - 8 < 8" by arith+
    then show ?thesis by (rule that(2))
  next
    case 3
    then have "n = 16 + (n - 16)" "n - 16 < 8" by arith+
    then show ?thesis by (rule that(3))
  next
    case 4
    then have "n = 24 + (n - 24)" "n - 24 < 8" by arith+
    then show ?thesis by (rule that(4))
  qed
qed

lemma ntohl_be_hi: "ntohl (take 4 (be64 w)) = ucast (drop_bit 32 w)"
proof (rule bit_word_eqI)
  fix n
  assume "n < LENGTH(32)"
  then have "n < 32" by simp
  then show "bit (ntohl (take 4 (be64 w))) n \<longleftrightarrow> bit (ucast (drop_bit 32 w) :: 32 word) n"
    by (cases n rule: byte_position)
      (auto simp: ntohl_def be64_def bit_simps dest: bit_imp_le_length)
qed

lemma ntohl_be_lo: "ntohl (drop 4 (be64 w)) = ucast w"
proof (rule bit_word_eqI)
  fix n
  assume "n < LENGTH(32)"
  then have "n < 32" by simp
  then show "bit (ntohl (drop 4 (be64 w))) n \<longleftrightarrow> bit (ucast w :: 32 word) n"
    by (cases n rule: byte_position)
      (auto simp: ntohl_def be64_def bit_simps dest: bit_imp_le_length)
qed

lemma lung_be64:
  "push_bit 32 (ucast (ucast (drop_bit 32 w) :: 32 word) :: 64 word) OR ucast (ucast w :: 32 word) = (w :: 64 word)"
  by (rule bit_word_eqI) (auto simp: bit_simps dest: bit_imp_le_length)

lemma asio_read_chunk:
  "wire_in c = Data d # arrs \<Longrightarrow> n \<le> length d \<Longrightarrow>
   asio_read n c = (Returns (take n d), c\<lparr>wire_in := Data (drop n d) # arrs\<rparr>)"
  by (simp add: asio_read_def)

lemma xor_mask_load32:
  "length payload = n \<Longrightarrow>
   map (\<lambda>k. payload ! k XOR mask_byte (load32 mk 0) k) [0..<n] = xor_mask mk payload"
  by (simp add: xor_mask_def mask_byte_load32)

lemma ws_payload_unmasked:
  "ws_payload False paylen c =
     (Throws SilentException, log_msg Warn ''WebSocket received unmasked data!'' c)"
  by (simp add: ws_payload_def)

lemma ws_payload_masked:
  assumes w: "wire_in c = Data (mk @ payload @ rest) # arrs"
    and mk: "length mk = 4" and n: "length payload = paylen"
  shows "ws_payload True paylen c =
     (Returns (xor_mask mk payload @ [0]),
      c\<lparr>wire_in := Data rest # arrs, allocs := allocs c @ [paylen + 1]\<rparr>)"
proof -
  have r1: "asio_read 4 c = (Returns mk, c\<lparr>wire_in := Data (payload @ rest) # arrs\<rparr>)"
    using asio_read_chunk [OF w, of 4] mk by simp
  let ?c2 = "c\<lparr>wire_in := Data (payload @ rest) # arrs, allocs := allocs c @ [paylen + 1]\<rparr>"
  have r2: "asio_read paylen ?c2 = (Returns payload, ?c2\<lparr>wire_in := Data rest # arrs\<rparr>)"
    using asio_read_chunk [of ?c2 "payload @ rest" arrs paylen] n by simp
  obtain i d where b: "ws_unmask_bulk (load32 mk 0) (int paylen) 0 (payload @ [0]) = (i, d)"
    by (cases "ws_unmask_bulk (load32 mk 0) (int paylen) 0 (payload @ [0])")
  have u: "(ws_unmask_tail (load32 mk 0) (int paylen) i d)[paylen := 0] = xor_mask mk payload @ [0]"
    using unmask_blob [OF n, of "load32 mk 0"] b xor_mask_load32 [OF n, of mk] by simp
  show ?thesis
    using r2 b u by (simp add: ws_payload_def r1 Let_def)
qed

lemma ws_payload_Returns:
  assumes "ws_payload maskbit paylen c = (Returns s, c')"
  shows "length s = paylen + 1 \<and> last s = 0 \<and> allocs c' = allocs c @ [paylen + 1]"
proof -
  from assms have mb: maskbit
    by (cases maskbit) (auto simp: ws_payload_def)
  obtain r1 c1 where r1: "asio_read 4 c = (r1, c1)" by (cases "asio_read 4 c")
  from assms mb r1 obtain mk where mk: "r1 = Returns mk"
    by (cases r1) (auto simp: ws_payload_def)
  have a1: "allocs c1 = allocs c"
    using r1 by (auto simp: asio_read_def split: prod.splits)
  let ?c2 = "c1\<lparr>allocs := allocs c1 @ [paylen + 1]\<rparr>"
  obtain r3 c3 where r3: "asio_read paylen ?c2 = (r3, c3)" by (cases "asio_read paylen ?c2")
  from assms mb r1 mk r3 obtain payload where p: "r3 = Returns payload"
    by (cases r3) (auto simp: ws_payload_def Let_def)
  from asio_read_Returns [of paylen ?c2 payload c3] r3 p have n: "length payload = paylen" by simp
  have a3: "allocs c3 = allocs ?c2"
    using r3 by (auto simp: asio_read_def split: prod.splits)
  obtain i d where b: "ws_unmask_bulk (load32 mk 0) (int paylen) 0 (payload @ [0]) = (i, d)"
    by (cases "ws_unmask_bulk (load32 mk 0) (int paylen) 0 (payload @ [0])")
  have u: "(ws_unmask_tail (load32 mk 0) (int paylen) i d)[paylen := 0] = xor_mask mk payload @ [0]"
    using unmask_blob [OF n, of "load32 mk 0"] b xor_mask_load32 [OF n, of mk] by simp
  from assms mb r1 mk r3 p b u have "s = xor_mask mk payload @ [0]" "c' = c3"
    by (simp_all add: ws_payload_def Let_def)
  with n a1 a3 show ?thesis by (simp add: xor_mask_def)
qed


lemma length_be16 [simp]: "length (be16 w) = 2"
  by (simp add: be16_def)

lemma length_be64 [simp]: "length (be64 w) = 8"
  by (simp add: be64_def)

lemma bind_io_ReturnsE:
  assumes "bind_io m f = (Returns y, c')"
  obtains x c1 where "m = (Returns x, c1)" "f x c1 = (Returns y, c')"
proof -
  obtain r c1 where m: "m = (r, c1)" by (cases m)
  with assms obtain x where "r = Returns x"
    by (cases r) auto
  with m assms that show thesis by auto
qed

lemma asio_read_allocs: "asio_read n c = (r, c') \<Longrightarrow> allocs c' = allocs c"
  by (auto simp: asio_read_def split: prod.splits)

lemma get_websocket_data_short:
  assumes "mpay AND 0x80 \<noteq> 0" and "mpay AND 0x7f \<le> 125"
    and "length mk = 4" and "length payload = unat (mpay AND 0x7f)"
    and w: "wire_in c = Data (mpay # mk @ payload @ rest) # arrs"
  shows "get_websocket_data c =
     (Returns (xor_mask mk payload @ [0]),
      c\<lparr>wire_in := Data rest # arrs, allocs := allocs c @ [length payload + 1]\<rparr>)"
proof -
  let ?c1 = "c\<lparr>wire_in := Data (mk @ payload @ rest) # arrs\<rparr>"
  have r1: "asio_read 1 c = (Returns [mpay], ?c1)"
    using asio_read_chunk [OF w, of 1] by simp
  from assms(2) have n6: "126 \<noteq> mpay AND 0x7f" and n7: "127 \<noteq> mpay AND 0x7f"
    by auto
  have p: "ws_payload True (unat (mpay AND 0x7f)) ?c1 =
     (Returns (xor_mask mk payload @ [0]),
      ?c1\<lparr>wire_in := Data rest # arrs, allocs := allocs ?c1 @ [unat (mpay AND 0x7f) + 1]\<rparr>)"
    by (rule ws_payload_masked [OF _ assms(3,4)]) simp
  show ?thesis
    using assms(1,4) n6 n7 p r1 by (simp add: get_websocket_data_def Let_def)
qed

lemma get_websocket_data_ext16:
  assumes "mpay AND 0x80 \<noteq> 0" and "mpay AND 0x7f = 126"
    and "length mk = 4" and "length payload = unat len16"
    and w: "wire_in c = Data (mpay # be16 len16 @ mk @ payload @ rest) # arrs"
  shows "get_websocket_data c =
     (Returns (xor_mask mk payload @ [0]),
      c\<lparr>wire_in := Data rest # arrs, allocs := allocs c @ [length payload + 1]\<rparr>)"
proof -
  let ?c1 = "c\<lparr>wire_in := Data (be16 len16 @ mk @ payload @ rest) # arrs\<rparr>"
  let ?c2 = "c\<lparr>wire_in := Data (mk @ payload @ rest) # arrs\<rparr>"
  have r1: "asio_read 1 c = (Returns [mpay], ?c1)"
    using asio_read_chunk [OF w, of 1] by simp
  have r2: "asio_read 2 ?c1 = (Returns (be16 len16), ?c2)"
    using asio_read_chunk [of ?c1 "be16 len16 @ mk @ payload @ rest" arrs 2] by simp
  have p: "ws_payload True (unat len16) ?c2 =
     (Returns (xor_mask mk payload @ [0]),
      ?c2\<lparr>wire_in := Data rest # arrs, allocs := allocs ?c2 @ [unat len16 + 1]\<rparr>)"
    by (rule ws_payload_masked [OF _ assms(3,4)]) simp
  show ?thesis
    using assms(1,2,4) p r1 r2 by (simp add: get_websocket_data_def Let_def ntohs_be16)
qed

lemma read_be64:
  assumes "wire_in c = Data (be64 len64 @ rest) # arrs"
  shows "asio_read 4 c = (Returns (take 4 (be64 len64)), c\<lparr>wire_in := Data (drop 4 (be64 len64) @ rest) # arrs\<rparr>)"
    and "asio_read 4 (c\<lparr>wire_in := Data (drop 4 (be64 len64) @ rest) # arrs\<rparr>) =
           (Returns (drop 4 (be64 len64)), c\<lparr>wire_in := Data rest # arrs\<rparr>)"
proof -
  show "asio_read 4 c = (Returns (take 4 (be64 len64)), c\<lparr>wire_in := Data (drop 4 (be64 len64) @ rest) # arrs\<rparr>)"
    using asio_read_chunk [OF assms, of 4] by simp
  let ?c2 = "c\<lparr>wire_in := Data (drop 4 (be64 len64) @ rest) # arrs\<rparr>"
  show "asio_read 4 ?c2 = (Returns (drop 4 (be64 len64)), c\<lparr>wire_in := Data rest # arrs\<rparr>)"
    using asio_read_chunk [of ?c2 "drop 4 (be64 len64) @ rest" arrs 4] by simp
qed

lemma get_websocket_data_ext64:
  assumes "mpay AND 0x80 \<noteq> 0" and "mpay AND 0x7f = 127" and "len64 \<le> 2 ^ 40"
    and "length mk = 4" and "length payload = unat len64"
    and w: "wire_in c = Data (mpay # be64 len64 @ mk @ payload @ rest) # arrs"
  shows "get_websocket_data c =
     (Returns (xor_mask mk payload @ [0]),
      c\<lparr>wire_in := Data rest # arrs, allocs := allocs c @ [length payload + 1]\<rparr>)"
proof -
  let ?c1 = "c\<lparr>wire_in := Data (be64 len64 @ mk @ payload @ rest) # arrs\<rparr>"
  let ?c3 = "c\<lparr>wire_in := Data (mk @ payload @ rest) # arrs\<rparr>"
  have r1: "asio_read 1 c = (Returns [mpay], ?c1)"
    using asio_read_chunk [OF w, of 1] by simp
  note r23 = read_be64 [of ?c1 len64 "mk @ payload @ rest" arrs, simplified]
  have p: "ws_payload True (unat len64) ?c3 =
     (Returns (xor_mask mk payload @ [0]),
      ?c3\<lparr>wire_in := Data rest # arrs, allocs := allocs ?c3 @ [unat len64 + 1]\<rparr>)"
    by (rule ws_payload_masked [OF _ assms(4,5)]) simp
  have sane: "\<not> (push_bit 40 1 :: 64 word) < len64"
    using assms(3) by (simp add: not_less)
  show ?thesis
    using assms(1,2,5) p sane r1 r23
    by (simp add: get_websocket_data_def Let_def ntohl_be_hi ntohl_be_lo lung_be64)
qed

lemma get_websocket_data_insane:
  assumes "mpay AND 0x7f = 127" and "2 ^ 40 < len64"
    and w: "wire_in c = Data (mpay # be64 len64 @ rest) # arrs"
  shows "get_websocket_data c =
     (Throws SilentException,
      log_msg Warn ''Websocket insane length %lu'' (c\<lparr>wire_in := Data rest # arrs\<rparr>))"
proof -
  let ?c1 = "c\<lparr>wire_in := Data (be64 len64 @ rest) # arrs\<rparr>"
  have r1: "asio_read 1 c = (Returns [mpay], ?c1)"
    using asio_read_chunk [OF w, of 1] by simp
  note r23 = read_be64 [of ?c1 len64 rest arrs, simplified]
  have insane: "(push_bit 40 1 :: 64 word) < len64"
    using assms(2) by simp
  show ?thesis
    using assms(1) insane r1 r23
    by (simp add: get_websocket_data_def Let_def ntohl_be_hi ntohl_be_lo lung_be64)
qed

lemma get_websocket_data_Returns:
  assumes "get_websocket_data c = (Returns s, c')"
  shows "s \<noteq> [] \<and> last s = 0 \<and> allocs c' = allocs c @ [length s]"
proof -
  have fin: "s \<noteq> [] \<and> last s = 0 \<and> allocs c' = allocs c @ [length s]"
    if "ws_payload mb n c1 = (Returns s, c')" "allocs c1 = allocs c" for mb n c1
    using ws_payload_Returns [OF that(1)] that(2) by auto
  from assms obtain b c1 where r1: "asio_read 1 c = (Returns b, c1)"
    and k1: "(let mpay = b ! 0;
           maskbit = (mpay AND 0x80 \<noteq> 0);
           paybyte = mpay AND 0x7f
       in if 126 = paybyte
          then bind_io (asio_read 2 c1) (\<lambda>shore c2. ws_payload maskbit (unat (ntohs shore)) c2)
          else if 127 = paybyte
          then bind_io (asio_read 4 c1) (\<lambda>lunghi c2.
                 bind_io (asio_read 4 c2) (\<lambda>lunglo c3.
                   let lung = (ucast (ntohl lunghi) :: 64 word);
                       lung = push_bit 32 lung OR ucast (ntohl lunglo)
                   in if push_bit 40 1 < lung
                      then (Throws SilentException,
                            log_msg Warn ''Websocket insane length %lu'' c3)
                      else ws_payload maskbit (unat lung) c3))
          else ws_payload maskbit (unat paybyte) c1) = (Returns s, c')"
    unfolding get_websocket_data_def by (rule bind_io_ReturnsE)
  note a1 = asio_read_allocs [OF r1]
  let ?pb = "b ! 0 AND 0x7f"
  let ?mb = "b ! 0 AND 0x80 \<noteq> 0"
  show ?thesis
  proof (cases "126 = ?pb")
    case True
    with k1 have "bind_io (asio_read 2 c1) (\<lambda>shore c2. ws_payload ?mb (unat (ntohs shore)) c2) = (Returns s, c')"
      by (simp add: Let_def)
    then obtain shore c2 where r2: "asio_read 2 c1 = (Returns shore, c2)"
      and p: "ws_payload ?mb (unat (ntohs shore)) c2 = (Returns s, c')"
      by (rule bind_io_ReturnsE)
    from fin [OF p] asio_read_allocs [OF r2] a1 show ?thesis by simp
  next
    case n6: False
    show ?thesis
    proof (cases "127 = ?pb")
      case True
      with k1 n6 have "bind_io (asio_read 4 c1) (\<lambda>lunghi c2.
                 bind_io (asio_read 4 c2) (\<lambda>lunglo c3.
                   let lung = (ucast (ntohl lunghi) :: 64 word);
                       lung = push_bit 32 lung OR ucast (ntohl lunglo)
                   in if push_bit 40 1 < lung
                      then (Throws SilentException,
                            log_msg Warn ''Websocket insane length %lu'' c3)
                      else ws_payload ?mb (unat lung) c3)) = (Returns s, c')"
        by (simp add: Let_def)
      then obtain lunghi c2 where r2: "asio_read 4 c1 = (Returns lunghi, c2)"
        and k2: "bind_io (asio_read 4 c2) (\<lambda>lunglo c3.
                   let lung = (ucast (ntohl lunghi) :: 64 word);
                       lung = push_bit 32 lung OR ucast (ntohl lunglo)
                   in if push_bit 40 1 < lung
                      then (Throws SilentException,
                            log_msg Warn ''Websocket insane length %lu'' c3)
                      else ws_payload ?mb (unat lung) c3) = (Returns s, c')"
        by (rule bind_io_ReturnsE)
      from k2 obtain lunglo c3 where r3: "asio_read 4 c2 = (Returns lunglo, c3)"
        and k3: "(let lung = (ucast (ntohl lunghi) :: 64 word);
                       lung = push_bit 32 lung OR ucast (ntohl lunglo)
                   in if push_bit 40 1 < lung
                      then (Throws SilentException,
                            log_msg Warn ''Websocket insane length %lu'' c3)
                      else ws_payload ?mb (unat lung) c3) = (Returns s, c')"
        by (rule bind_io_ReturnsE)
      from k3 have p: "ws_payload ?mb (unat (push_bit 32 (ucast (ntohl lunghi) :: 64 word) OR ucast (ntohl lunglo))) c3 = (Returns s, c')"
        by (simp add: Let_def split: if_splits)
      from fin [OF p] asio_read_allocs [OF r3] asio_read_allocs [OF r2] a1 show ?thesis by simp
    next
      case False
      with k1 n6 have p: "ws_payload ?mb (unat ?pb) c1 = (Returns s, c')"
        by (simp add: Let_def)
      from fin [OF p] a1 show ?thesis by simp
    qed
  qed
qed


subsection \<open>get\_websocket\_line\<close>

lemma get_websocket_line_header:
  assumes "wire_in c = Data (fop # tail) # arrs"
  shows "get_websocket_line c = get_websocket_line_loop (fop AND 0xf) (c\<lparr>wire_in := Data tail # arrs\<rparr>)"
  using asio_read_chunk [OF assms, of 1] by (simp add: get_websocket_line_def)

lemma get_websocket_line_loop_text:
  "get_websocket_line_loop 1 c = get_websocket_data c"
  by (simp add: get_websocket_line_loop.simps [of 1 c])

lemma send_pong_reply_ok:
  assumes "socket c \<noteq> None" and "write_error c = None"
  shows "send_pong_reply pingd c =
     (Returns (), c\<lparr>sent := sent c @ [0x8a, of_nat (length pingd - 1)] @ take (length pingd - 1) pingd\<rparr>)"
  using assms by (simp add: send_pong_reply_def Let_def Send_ok)

lemma get_websocket_line_loop_ping:
  assumes "get_websocket_data c = (Returns pingd, c1)"
    and "socket c1 \<noteq> None" and "write_error c1 = None"
  shows "get_websocket_line_loop 9 c =
     get_websocket_line
       (c1\<lparr>sent := sent c1 @ [0x8a, of_nat (length pingd - 1)] @ take (length pingd - 1) pingd\<rparr>)"
proof -
  let ?c2 = "c1\<lparr>sent := sent c1 @ [0x8a, of_nat (length pingd - 1)] @ take (length pingd - 1) pingd\<rparr>"
  obtain r3 c3 where r3: "asio_read 1 ?c2 = (r3, c3)" by (cases "asio_read 1 ?c2")
  show ?thesis
    using assms(1) send_pong_reply_ok [OF assms(2,3), of pingd] r3
    by (cases r3) (simp_all add: get_websocket_line_loop.simps [of 9 c] get_websocket_line_def)
qed

lemma get_websocket_line_loop_pong:
  assumes "get_websocket_data c = (Returns pongd, c1)"
  shows "get_websocket_line_loop 0xa c = get_websocket_line c1"
proof -
  obtain r3 c3 where r3: "asio_read 1 c1 = (r3, c3)" by (cases "asio_read 1 c1")
  show ?thesis
    using assms r3
    by (cases r3) (simp_all add: get_websocket_line_loop.simps [of "0xa" c] get_websocket_line_def)
qed

lemma get_websocket_line_loop_Returns:
  "get_websocket_line_loop opcode c = (Returns s, c') \<Longrightarrow> s \<noteq> [] \<and> last s = 0"
proof (induction opcode c rule: get_websocket_line_loop.induct)
  case (1 opcode c)
  show ?case
  proof (cases "9 = opcode \<or> 0xa = opcode")
    case False
    with "1.prems" have "get_websocket_data c = (Returns s, c')"
      by (simp add: get_websocket_line_loop.simps [of opcode c] split: if_splits)
    from get_websocket_data_Returns [OF this] show ?thesis by simp
  next
    case True
    obtain r1 c1 where r1: "get_websocket_data c = (r1, c1)" by (cases "get_websocket_data c")
    from "1.prems" True r1 obtain pingd where p: "r1 = Returns pingd"
      by (cases r1) (auto simp: get_websocket_line_loop.simps [of opcode c])
    let ?m = "if 9 = opcode then send_pong_reply pingd c1 else (Returns (), c1)"
    obtain r2 c2 where r2: "?m = (r2, c2)" by (cases ?m)
    from "1.prems" True r1 p r2 obtain u where u: "r2 = Returns u"
      by (cases r2) (auto simp: get_websocket_line_loop.simps [of opcode c])
    obtain r3 c3 where r3: "asio_read 1 c2 = (r3, c3)" by (cases "asio_read 1 c2")
    from "1.prems" True r1 p r2 u r3 obtain fop where f: "r3 = Returns fop"
      by (cases r3) (auto simp: get_websocket_line_loop.simps [of opcode c])
    from "1.prems" True r1 p r2 u r3 f
    have "get_websocket_line_loop (fop ! 0 AND 0xf) c3 = (Returns s, c')"
      by (auto simp: get_websocket_line_loop.simps [of opcode c])
    with "1.IH" [OF True _ _ _ _ _ _] r1 p r2 u r3 f show ?thesis
      by auto
  qed
qed

lemma get_websocket_line_Returns:
  assumes "get_websocket_line c = (Returns s, c')"
  shows "s \<noteq> [] \<and> last s = 0"
proof -
  from assms obtain fop c1 where "get_websocket_line_loop (fop ! 0 AND 0xf) c1 = (Returns s, c')"
    unfolding get_websocket_line_def by (rule bind_io_ReturnsE)
  then show ?thesis by (rule get_websocket_line_loop_Returns)
qed



subsection \<open>Masking and the three length encodings\<close>

lemma hello_bytes: "bytes_of ''hello'' = [0x68, 0x65, 0x6c, 0x6c, 0x6f]"
  by (simp add: bytes_of_def)

lemma xor_mask_involution: "xor_mask mk (xor_mask mk p) = p"
proof -
  have "xor_mask mk (xor_mask mk p) = map (\<lambda>k. p ! k) [0..<length p]"
    by (simp add: xor_mask_def xor.assoc)
  then show ?thesis by (simp add: map_nth)
qed

lemma length_xor_mask [simp]: "length (xor_mask mk p) = length p"
  by (simp add: xor_mask_def)

lemma xor_mask_hello: "xor_mask [1, 2, 3, 4] [0x68, 0x65, 0x6c, 0x6c, 0x6f] = [0x69, 0x67, 0x6f, 0x68, 0x6e]"
  by code_simp


lemma masked_frame_decoded:
  assumes "mpay AND 0x80 \<noteq> 0" and "length mk = 4"
    and "mpay AND 0x7f \<le> 125 \<and> length payload = unat (mpay AND 0x7f) \<and> header = [mpay] \<or>
         mpay AND 0x7f = 126 \<and> length payload = unat len16 \<and> header = mpay # be16 len16 \<or>
         mpay AND 0x7f = 127 \<and> len64 \<le> 2 ^ 40 \<and> length payload = unat len64 \<and>
           header = mpay # be64 len64"
    and "wire_in c = Data (header @ mk @ payload @ rest) # arrs"
  shows "get_websocket_data c =
     (Returns (xor_mask mk payload @ [0]),
      c\<lparr>wire_in := Data rest # arrs, allocs := allocs c @ [length payload + 1]\<rparr>)"
  using assms(3)
proof (elim disjE conjE)
  assume "mpay AND 0x7f \<le> 125" "length payload = unat (mpay AND 0x7f)" "header = [mpay]"
  with assms(1,2,4) show ?thesis
    by (intro get_websocket_data_short) simp_all
next
  assume "mpay AND 0x7f = 126" "length payload = unat len16" "header = mpay # be16 len16"
  with assms(1,2,4) show ?thesis
    by (intro get_websocket_data_ext16 [where ?len16.0 = len16]) simp_all
next
  assume "mpay AND 0x7f = 127" "len64 \<le> 2 ^ 40" "length payload = unat len64"
    "header = mpay # be64 len64"
  with assms(1,2,4) show ?thesis
    by (intro get_websocket_data_ext64 [where ?len64.0 = len64]) simp_all
qed

subsection \<open>Claim C10: the decoded unit ends with an extra NUL byte\<close>

text \<open>
  C10. Whenever \<^verbatim>\<open>get_websocket_data\<close> returns, the string it returns is not empty,
  its last byte is 0, and its length is the size of the one buffer the call has
  obtained; the same holds for what \<^verbatim>\<open>get_websocket_line\<close> returns to its caller. For
  a masked frame with declared payload length \<open>n\<close> in any of the three encodings
  (the length code itself when it is at most 125; length code 126 and two bytes;
  length code 127 and eight bytes with a value of at most \<open>2^40\<close>), followed by the
  mask key and \<open>n\<close> payload bytes, the returned string has length \<open>n + 1\<close>: its first
  \<open>n\<close> bytes are the payload XOR-ed with the repeated mask key and its last byte is 0.
\<close>

theorem get_websocket_data_appends_nul:
  "(get_websocket_data c = (Returns s, c') \<longrightarrow>
      s \<noteq> [] \<and> last s = 0 \<and> allocs c' = allocs c @ [length s]) \<and>
   (get_websocket_line c = (Returns s, c') \<longrightarrow> s \<noteq> [] \<and> last s = 0) \<and>
   (mpay AND 0x80 \<noteq> 0 \<and> length mk = 4 \<and>
    (mpay AND 0x7f \<le> 125 \<and> length payload = unat (mpay AND 0x7f) \<and> header = [mpay] \<or>
     mpay AND 0x7f = 126 \<and> length payload = unat len16 \<and> header = mpay # be16 len16 \<or>
     mpay AND 0x7f = 127 \<and> len64 \<le> 2 ^ 40 \<and> length payload = unat len64 \<and>
       header = mpay # be64 len64) \<and>
    wire_in c = Data (header @ mk @ payload @ rest) # arrs \<longrightarrow>
      get_websocket_data c =
        (Returns (xor_mask mk payload @ [0]),
         c\<lparr>wire_in := Data rest # arrs, allocs := allocs c @ [length payload + 1]\<rparr>) \<and>
      length (xor_mask mk payload @ [0]) = length payload + 1 \<and>
      take (length payload) (xor_mask mk payload @ [0]) = xor_mask mk payload \<and>
      (xor_mask mk payload @ [0]) ! length payload = 0)"
proof (intro conjI impI)
  assume "get_websocket_data c = (Returns s, c')"
  from get_websocket_data_Returns [OF this]
  show "s \<noteq> []" "last s = 0" "allocs c' = allocs c @ [length s]" by simp_all
next
  assume "get_websocket_line c = (Returns s, c')"
  from get_websocket_line_Returns [OF this]
  show "s \<noteq> []" "last s = 0" by simp_all
next
  assume a: "mpay AND 0x80 \<noteq> 0 \<and> length mk = 4 \<and>
    (mpay AND 0x7f \<le> 125 \<and> length payload = unat (mpay AND 0x7f) \<and> header = [mpay] \<or>
     mpay AND 0x7f = 126 \<and> length payload = unat len16 \<and> header = mpay # be16 len16 \<or>
     mpay AND 0x7f = 127 \<and> len64 \<le> 2 ^ 40 \<and> length payload = unat len64 \<and>
       header = mpay # be64 len64) \<and>
    wire_in c = Data (header @ mk @ payload @ rest) # arrs"
  show "get_websocket_data c =
        (Returns (xor_mask mk payload @ [0]),
         c\<lparr>wire_in := Data rest # arrs, allocs := allocs c @ [length payload + 1]\<rparr>)"
    using a by (elim conjE) (rule masked_frame_decoded [where ?len16.0 = len16 and ?len64.0 = len64])
  show "length (xor_mask mk payload @ [0]) = length payload + 1" by simp
  show "take (length payload) (xor_mask mk payload @ [0]) = xor_mask mk payload" by simp
  show "(xor_mask mk payload @ [0]) ! length payload = 0"
    by (simp add: nth_append)
qed

theorem get_websocket_data_appends_nul_witness:
  "(0x85 :: byte) AND 0x80 \<noteq> 0 \<and> length [1, 2, 3, 4 :: byte] = 4 \<and>
   (0x85 :: byte) AND 0x7f \<le> 125 \<and>
   length [0x69, 0x67, 0x6f, 0x68, 0x6e :: byte] = unat ((0x85 :: byte) AND 0x7f) \<and>
   get_websocket_data (connected [Data [0x85, 1, 2, 3, 4, 0x69, 0x67, 0x6f, 0x68, 0x6e]]) =
     (Returns [0x68, 0x65, 0x6c, 0x6c, 0x6f, 0],
      (connected [Data [0x85, 1, 2, 3, 4, 0x69, 0x67, 0x6f, 0x68, 0x6e]])
        \<lparr>wire_in := [Data []], allocs := [6]\<rparr>) \<and>
   last [0x68, 0x65, 0x6c, 0x6c, 0x6f, 0 :: byte] = 0"
proof -
  have w: "wire_in (connected [Data [0x85, 1, 2, 3, 4, 0x69, 0x67, 0x6f, 0x68, 0x6e]]) =
      Data ([0x85] @ [1, 2, 3, 4] @ [0x69, 0x67, 0x6f, 0x68, 0x6e] @ []) # []"
    and a: "allocs (connected [Data [0x85, 1, 2, 3, 4, 0x69, 0x67, 0x6f, 0x68, 0x6e]]) = []"
    by (simp_all add: connected_def)
  have x: "xor_mask [1, 2, 3, 4] [0x69, 0x67, 0x6f, 0x68, 0x6e] = [0x68, 0x65, 0x6c, 0x6c, 0x6f]"
    using xor_mask_involution [of "[1, 2, 3, 4]" "[0x68, 0x65, 0x6c, 0x6c, 0x6f]"]
    by (simp add: xor_mask_hello)
  show ?thesis
    using w
      get_websocket_data_appends_nul
        [where c = "connected [Data [0x85, 1, 2, 3, 4, 0x69, 0x67, 0x6f, 0x68, 0x6e]]"
           and mpay = "0x85" and mk = "[1, 2, 3, 4]"
           and payload = "[0x69, 0x67, 0x6f, 0x68, 0x6e]" and header = "[0x85]"
           and rest = "[]" and arrs = "[]"]
    by (simp add: x a)
qed

subsection \<open>Claim C4: the sanity ceiling on the declared length\<close>

text \<open>
  C4. For a frame with length code 127 whose eight-byte big-endian length exceeds
  \<open>2^40\<close>, \<^verbatim>\<open>get_websocket_data\<close> logs a warning and throws \<^verbatim>\<open>SilentException\<close> having
  read the length and nothing after it: the mask key and the payload are still in
  the socket and no buffer has been sized. A length of at most \<open>2^40\<close> passes the
  check: with the mask bit set, the frame is decoded, its declared length being the
  length code itself when that is at most 125, the two-byte big-endian value after
  length code 126, and the eight-byte big-endian value after length code 127.
\<close>

theorem insane_length_terminates_before_payload:
  "(mpay AND 0x7f = 127 \<and> 2 ^ 40 < len64 \<and>
    wire_in c = Data (mpay # be64 len64 @ rest) # arrs \<longrightarrow>
      get_websocket_data c =
        (Throws SilentException,
         log_msg Warn ''Websocket insane length %lu'' (c\<lparr>wire_in := Data rest # arrs\<rparr>)) \<and>
      wire_in (snd (get_websocket_data c)) = Data rest # arrs \<and>
      allocs (snd (get_websocket_data c)) = allocs c) \<and>
   (mpay AND 0x80 \<noteq> 0 \<and> length mk = 4 \<and>
    (mpay AND 0x7f \<le> 125 \<and> length payload = unat (mpay AND 0x7f) \<and> header = [mpay] \<or>
     mpay AND 0x7f = 126 \<and> length payload = unat len16 \<and> header = mpay # be16 len16 \<or>
     mpay AND 0x7f = 127 \<and> len64 \<le> 2 ^ 40 \<and> length payload = unat len64 \<and>
       header = mpay # be64 len64) \<and>
    wire_in c = Data (header @ mk @ payload @ rest) # arrs \<longrightarrow>
      get_websocket_data c =
        (Returns (xor_mask mk payload @ [0]),
         c\<lparr>wire_in := Data rest # arrs, allocs := allocs c @ [length payload + 1]\<rparr>))"
proof (intro conjI impI)
  assume a: "mpay AND 0x7f = 127 \<and> 2 ^ 40 < len64 \<and>
    wire_in c = Data (mpay # be64 len64 @ rest) # arrs"
  then have e: "get_websocket_data c =
        (Throws SilentException,
         log_msg Warn ''Websocket insane length %lu'' (c\<lparr>wire_in := Data rest # arrs\<rparr>))"
    by (elim conjE) (rule get_websocket_data_insane [where ?len64.0 = len64])
  show "get_websocket_data c =
        (Throws SilentException,
         log_msg Warn ''Websocket insane length %lu'' (c\<lparr>wire_in := Data rest # arrs\<rparr>))"
    by (rule e)
  show "wire_in (snd (get_websocket_data c)) = Data rest # arrs"
    by (simp add: e log_msg_def)
  show "allocs (snd (get_websocket_data c)) = allocs c"
    by (simp add: e log_msg_def)
next
  assume a: "mpay AND 0x80 \<noteq> 0 \<and> length mk = 4 \<and>
    (mpay AND 0x7f \<le> 125 \<and> length payload = unat (mpay AND 0x7f) \<and> header = [mpay] \<or>
     mpay AND 0x7f = 126 \<and> length payload = unat len16 \<and> header = mpay # be16 len16 \<or>
     mpay AND 0x7f = 127 \<and> len64 \<le> 2 ^ 40 \<and> length payload = unat len64 \<and>
       header = mpay # be64 len64) \<and>
    wire_in c = Data (header @ mk @ payload @ rest) # arrs"
  show "get_websocket_data c =
        (Returns (xor_mask mk payload @ [0]),
         c\<lparr>wire_in := Data rest # arrs, allocs := allocs c @ [length payload + 1]\<rparr>)"
    using a by (elim conjE) (rule masked_frame_decoded [where ?len16.0 = len16 and ?len64.0 = len64])
qed

theorem insane_length_terminates_before_payload_witness:
  "(0xFF :: byte) AND 0x7f = 127 \<and> (2 ^ 40 :: 64 word) < 1099511627777 \<and>
   be64 1099511627777 = [0, 0, 1, 0, 0, 0, 0, 1] \<and>
   get_websocket_data (connected [Data [0xFF, 0, 0, 1, 0, 0, 0, 0, 1, 9, 8, 7, 6, 5]]) =
     (Throws SilentException,
      log_msg Warn ''Websocket insane length %lu''
        ((connected [Data [0xFF, 0, 0, 1, 0, 0, 0, 0, 1, 9, 8, 7, 6, 5]])
           \<lparr>wire_in := [Data [9, 8, 7, 6, 5]]\<rparr>)) \<and>
   (0xFF :: byte) AND 0x80 \<noteq> 0 \<and> (2 :: 64 word) \<le> 2 ^ 40 \<and>
   be64 2 = [0, 0, 0, 0, 0, 0, 0, 2] \<and>
   get_websocket_data (connected [Data [0xFF, 0, 0, 0, 0, 0, 0, 0, 2, 0, 0, 0, 0, 0x68, 0x69, 0x0A]]) =
     (Returns [0x68, 0x69, 0],
      (connected [Data [0xFF, 0, 0, 0, 0, 0, 0, 0, 2, 0, 0, 0, 0, 0x68, 0x69, 0x0A]])
        \<lparr>wire_in := [Data [0x0A]], allocs := [3]\<rparr>)"
proof -
  let ?c1 = "connected [Data [0xFF, 0, 0, 1, 0, 0, 0, 0, 1, 9, 8, 7, 6, 5]]"
  let ?c2 = "connected [Data [0xFF, 0, 0, 0, 0, 0, 0, 0, 2, 0, 0, 0, 0, 0x68, 0x69, 0x0A]]"
  have b1: "be64 1099511627777 = [0, 0, 1, 0, 0, 0, 0, 1]"
    and b2: "be64 2 = [0, 0, 0, 0, 0, 0, 0, 2]"
    by (simp_all add: be64_def)
  have w1: "wire_in ?c1 = Data (0xFF # be64 1099511627777 @ [9, 8, 7, 6, 5]) # []"
    by (simp add: connected_def b1)
  have w2: "wire_in ?c2 = Data ((0xFF # be64 2) @ [0, 0, 0, 0] @ [0x68, 0x69] @ [0x0A]) # []"
    and a2: "allocs ?c2 = []"
    by (simp_all add: connected_def b2)
  have x: "xor_mask [0, 0, 0, 0] [0x68, 0x69] = [0x68, 0x69]"
    by code_simp
  have i: "(2 ^ 40 :: 64 word) < 1099511627777" by simp
  show ?thesis
    using w1 w2 i
      insane_length_terminates_before_payload
        [where c = ?c1 and mpay = "0xFF" and ?len64.0 = "1099511627777" and rest = "[9, 8, 7, 6, 5]"
           and arrs = "[]"]
      insane_length_terminates_before_payload
        [where c = ?c2 and mpay = "0xFF" and ?len64.0 = 2 and mk = "[0, 0, 0, 0]"
           and payload = "[0x68, 0x69]" and header = "0xFF # be64 2" and rest = "[0x0A]"
           and arrs = "[]"]
    by (simp add: b1 b2 x a2)
qed


subsection \<open>Claim C1: the round trip of the text hello\<close>

lemma client_mask_short:
  "b1 \<noteq> 126 \<Longrightarrow> b1 \<noteq> 127 \<Longrightarrow>
   client_mask mk (b0 # b1 # payload) = b0 # (b1 OR 0x80) # mk @ xor_mask mk payload"
  by (simp add: client_mask_def)

lemma send_websocket_hello:
  assumes "socket c \<noteq> None" and "write_error c = None"
  shows "send_websocket (bytes_of ''hello'') c =
     (Returns (), c\<lparr>sent := sent c @ [0x81, 5] @ bytes_of ''hello''\<rparr>)"
  using assms by (simp add: send_websocket_def Let_def Send_ok hello_bytes)

lemma decode_masked_hello:
  assumes "length mk = 4"
    and w: "wire_in d = Data (0x85 # mk @ xor_mask mk (bytes_of ''hello'') @ rest) # arrs"
  shows "get_websocket_data d =
     (Returns (bytes_of ''hello'' @ [0]),
      d\<lparr>wire_in := Data rest # arrs, allocs := allocs d @ [6]\<rparr>)"
proof -
  have "get_websocket_data d =
     (Returns (xor_mask mk (xor_mask mk (bytes_of ''hello'')) @ [0]),
      d\<lparr>wire_in := Data rest # arrs,
        allocs := allocs d @ [length (xor_mask mk (bytes_of ''hello'')) + 1]\<rparr>)"
    by (rule get_websocket_data_short [where mpay = "0x85", OF _ _ assms(1) _ w])
      (simp_all add: hello_bytes)
  then show ?thesis
    by (simp add: xor_mask_involution) (simp add: hello_bytes)
qed

text \<open>
  C1, as the code has it. On a connection with its socket installed and a peer that
  accepts the writes, \<^verbatim>\<open>send_websocket\<close> of the text \<open>hello\<close> writes the frame
  \<open>0x81, 5, h, e, l, l, o\<close>. When a client masks that frame with any four-byte key and
  sets the mask bit, \<^verbatim>\<open>get_websocket_line\<close> applied to the resulting bytes, and
  \<^verbatim>\<open>get_websocket_data\<close> applied to them once the first byte has been read, return the
  six bytes \<open>h, e, l, l, o, 0\<close>: the text followed by one NUL byte.
\<close>

theorem websocket_round_trip_hello:
  "socket c \<noteq> None \<and> write_error c = None \<and> length mk = 4 \<longrightarrow>
     send_websocket (bytes_of ''hello'') c =
       (Returns (), c\<lparr>sent := sent c @ [0x81, 5] @ bytes_of ''hello''\<rparr>) \<and>
     (wire_in d = Data (client_mask mk ([0x81, 5] @ bytes_of ''hello'') @ rest) # arrs \<longrightarrow>
        get_websocket_line d =
          (Returns (bytes_of ''hello'' @ [0]),
           d\<lparr>wire_in := Data rest # arrs, allocs := allocs d @ [6]\<rparr>)) \<and>
     (wire_in d = Data (tl (client_mask mk ([0x81, 5] @ bytes_of ''hello'')) @ rest) # arrs \<longrightarrow>
        get_websocket_data d =
          (Returns (bytes_of ''hello'' @ [0]),
           d\<lparr>wire_in := Data rest # arrs, allocs := allocs d @ [6]\<rparr>)) \<and>
     length (bytes_of ''hello'' @ [0]) = 6"
proof (intro impI conjI)
  assume a: "socket c \<noteq> None \<and> write_error c = None \<and> length mk = 4"
  then have mk: "length mk = 4" by simp
  have cm: "client_mask mk (0x81 # 5 # bytes_of ''hello'') =
      0x81 # 0x85 # mk @ xor_mask mk (bytes_of ''hello'')"
    using client_mask_short [of 5 mk "0x81" "bytes_of ''hello''"] by simp
  show "send_websocket (bytes_of ''hello'') c =
       (Returns (), c\<lparr>sent := sent c @ [0x81, 5] @ bytes_of ''hello''\<rparr>)"
    using a by (intro send_websocket_hello) simp_all
  show "length (bytes_of ''hello'' @ [0]) = 6"
    by (simp add: hello_bytes)
  {
    assume w: "wire_in d = Data (client_mask mk ([0x81, 5] @ bytes_of ''hello'') @ rest) # arrs"
    then have w': "wire_in d = Data (0x81 # (0x85 # mk @ xor_mask mk (bytes_of ''hello'') @ rest)) # arrs"
      by (simp add: cm)
    let ?d1 = "d\<lparr>wire_in := Data (0x85 # mk @ xor_mask mk (bytes_of ''hello'') @ rest) # arrs\<rparr>"
    have "get_websocket_line d = get_websocket_data ?d1"
      using get_websocket_line_header [OF w'] by (simp add: get_websocket_line_loop_text)
    also have "\<dots> = (Returns (bytes_of ''hello'' @ [0]),
           ?d1\<lparr>wire_in := Data rest # arrs, allocs := allocs ?d1 @ [6]\<rparr>)"
      by (rule decode_masked_hello [OF mk]) simp
    finally show "get_websocket_line d =
          (Returns (bytes_of ''hello'' @ [0]),
           d\<lparr>wire_in := Data rest # arrs, allocs := allocs d @ [6]\<rparr>)"
      by simp
  }
  {
    assume "wire_in d = Data (tl (client_mask mk ([0x81, 5] @ bytes_of ''hello'')) @ rest) # arrs"
    then have "wire_in d = Data (0x85 # mk @ xor_mask mk (bytes_of ''hello'') @ rest) # arrs"
      by (simp add: cm)
    then show "get_websocket_data d =
          (Returns (bytes_of ''hello'' @ [0]),
           d\<lparr>wire_in := Data rest # arrs, allocs := allocs d @ [6]\<rparr>)"
      by (rule decode_masked_hello [OF mk])
  }
qed

lemma client_mask_hello:
  "client_mask [1, 2, 3, 4] [0x81, 0x05, 0x68, 0x65, 0x6c, 0x6c, 0x6f] =
     [0x81, 0x85, 1, 2, 3, 4, 0x69, 0x67, 0x6f, 0x68, 0x6e]"
  using client_mask_short [of 5 "[1, 2, 3, 4]" "0x81" "[0x68, 0x65, 0x6c, 0x6c, 0x6f]"]
  by (simp add: xor_mask_hello)

theorem websocket_round_trip_hello_witness:
  "socket (connected []) \<noteq> None \<and> write_error (connected []) = None \<and>
   length [1, 2, 3, 4 :: byte] = 4 \<and>
   send_websocket (bytes_of ''hello'') (connected []) =
     (Returns (), (connected [])\<lparr>sent := [0x81, 0x05, 0x68, 0x65, 0x6c, 0x6c, 0x6f]\<rparr>) \<and>
   get_websocket_line (connected [Data [0x81, 0x85, 1, 2, 3, 4, 0x69, 0x67, 0x6f, 0x68, 0x6e]]) =
     (Returns [0x68, 0x65, 0x6c, 0x6c, 0x6f, 0],
      (connected [Data [0x81, 0x85, 1, 2, 3, 4, 0x69, 0x67, 0x6f, 0x68, 0x6e]])
        \<lparr>wire_in := [Data []], allocs := [6]\<rparr>)"
proof -
  let ?d = "connected [Data [0x81, 0x85, 1, 2, 3, 4, 0x69, 0x67, 0x6f, 0x68, 0x6e]] :: unit conn"
  have s: "socket (connected []) \<noteq> None" "write_error (connected []) = None"
    "sent (connected []) = []"
    by (simp_all add: connected_def)
  have w: "wire_in ?d = Data (client_mask [1, 2, 3, 4] ([0x81, 5] @ bytes_of ''hello'') @ []) # []"
    and a: "allocs ?d = []"
    by (simp_all add: connected_def hello_bytes client_mask_hello)
  show ?thesis
    using s w websocket_round_trip_hello [of "connected []" "[1, 2, 3, 4]" ?d "[]" "[]"]
    by (simp add: hello_bytes a)
qed

text \<open>
  The claim as the spec words it (exactly the string \<open>hello\<close>, nothing appended) fails:
  the decoder returns six bytes, the last one the NUL it appends.
\<close>

theorem websocket_round_trip_counterexample:
  "send_websocket (bytes_of ''hello'') (connected []) =
     (Returns (), (connected [])\<lparr>sent := [0x81, 0x05, 0x68, 0x65, 0x6c, 0x6c, 0x6f]\<rparr>) \<and>
   client_mask [1, 2, 3, 4] [0x81, 0x05, 0x68, 0x65, 0x6c, 0x6c, 0x6f] =
     [0x81, 0x85, 1, 2, 3, 4, 0x69, 0x67, 0x6f, 0x68, 0x6e] \<and>
   fst (get_websocket_data (connected [Data [0x85, 1, 2, 3, 4, 0x69, 0x67, 0x6f, 0x68, 0x6e]])) =
     Returns [0x68, 0x65, 0x6c, 0x6c, 0x6f, 0] \<and>
   fst (get_websocket_line (connected [Data [0x81, 0x85, 1, 2, 3, 4, 0x69, 0x67, 0x6f, 0x68, 0x6e]])) =
     Returns [0x68, 0x65, 0x6c, 0x6c, 0x6f, 0] \<and>
   bytes_of ''hello'' = [0x68, 0x65, 0x6c, 0x6c, 0x6f] \<and>
   fst (get_websocket_data (connected [Data [0x85, 1, 2, 3, 4, 0x69, 0x67, 0x6f, 0x68, 0x6e]])) \<noteq>
     Returns (bytes_of ''hello'')"
proof -
  let ?d = "connected [Data [0x85, 1, 2, 3, 4, 0x69, 0x67, 0x6f, 0x68, 0x6e]] :: unit conn"
  let ?e = "connected [Data [0x81, 0x85, 1, 2, 3, 4, 0x69, 0x67, 0x6f, 0x68, 0x6e]] :: unit conn"
  have s: "socket (connected []) \<noteq> None" "write_error (connected []) = None"
    "sent (connected []) = []"
    by (simp_all add: connected_def)
  have x: "xor_mask [1, 2, 3, 4] (bytes_of ''hello'') = [0x69, 0x67, 0x6f, 0x68, 0x6e]"
    by (simp add: hello_bytes xor_mask_hello)
  have wd: "wire_in ?d = Data (0x85 # [1, 2, 3, 4] @ xor_mask [1, 2, 3, 4] (bytes_of ''hello'') @ []) # []"
    by (simp add: connected_def x)
  have we: "wire_in ?e = Data (0x81 # [0x85, 1, 2, 3, 4, 0x69, 0x67, 0x6f, 0x68, 0x6e]) # []"
    by (simp add: connected_def)
  have d: "fst (get_websocket_data ?d) = Returns [0x68, 0x65, 0x6c, 0x6c, 0x6f, 0]"
    using decode_masked_hello [OF _ wd] by (simp add: hello_bytes)
  have "?e\<lparr>wire_in := Data [0x85, 1, 2, 3, 4, 0x69, 0x67, 0x6f, 0x68, 0x6e] # []\<rparr> = ?d"
    by (simp add: connected_def)
  then have e: "get_websocket_line ?e = get_websocket_data ?d"
    using get_websocket_line_header [OF we] by (simp add: get_websocket_line_loop_text)
  show ?thesis
    using send_websocket_hello [OF s(1,2)] s(3) d e
    by (simp add: hello_bytes client_mask_hello)
qed


subsection \<open>Claim C7: ping and pong frames\<close>

lemma unmasked_frame_short:
  assumes "length payload = unat (len7 :: byte)" and "len7 \<le> 125"
  shows "unmasked_frame opcode payload = [0x80 OR opcode, len7] @ payload"
proof -
  from assms(2) have "unat len7 \<le> 125"
    by (simp add: word_le_nat_alt)
  with assms(1) have "length payload < 126" by simp
  with assms(1) show ?thesis
    by (simp add: unmasked_frame_def)
qed

lemma control_frame_read:
  assumes "mpay AND 0x80 \<noteq> 0" and "mpay AND 0x7f \<le> 125" and "length mk = 4"
    and "length payload = unat (mpay AND 0x7f)"
    and w: "wire_in c = Data (fop # mpay # mk @ xor_mask mk payload @ rest) # arrs"
  shows "get_websocket_line c =
           get_websocket_line_loop (fop AND 0xf)
             (c\<lparr>wire_in := Data (mpay # mk @ xor_mask mk payload @ rest) # arrs\<rparr>)"
    and "get_websocket_data (c\<lparr>wire_in := Data (mpay # mk @ xor_mask mk payload @ rest) # arrs\<rparr>) =
           (Returns (payload @ [0]),
            c\<lparr>wire_in := Data rest # arrs, allocs := allocs c @ [length payload + 1]\<rparr>)"
proof -
  let ?c1 = "c\<lparr>wire_in := Data (mpay # mk @ xor_mask mk payload @ rest) # arrs\<rparr>"
  show "get_websocket_line c = get_websocket_line_loop (fop AND 0xf) ?c1"
    by (rule get_websocket_line_header [OF w])
  have "get_websocket_data ?c1 =
      (Returns (xor_mask mk (xor_mask mk payload) @ [0]),
       ?c1\<lparr>wire_in := Data rest # arrs, allocs := allocs ?c1 @ [length (xor_mask mk payload) + 1]\<rparr>)"
    by (rule get_websocket_data_short [OF assms(1,2,3)]) (simp_all add: assms(4))
  then show "get_websocket_data ?c1 =
           (Returns (payload @ [0]),
            c\<lparr>wire_in := Data rest # arrs, allocs := allocs c @ [length payload + 1]\<rparr>)"
    by (simp add: xor_mask_involution)
qed

text \<open>
  A masked ping or pong frame of at most 125 payload bytes, the most a control frame
  may carry.
\<close>

lemma masked_control_frame:
  "mpay AND 0x80 \<noteq> 0 \<and> mpay AND 0x7f \<le> 125 \<and> length mk = 4 \<and>
   length payload = unat (mpay AND 0x7f) \<and>
   wire_in c = Data (fop # mpay # mk @ xor_mask mk payload @ rest) # arrs \<longrightarrow>
     (fop AND 0xf = 9 \<and> socket c \<noteq> None \<and> write_error c = None \<longrightarrow>
        get_websocket_line c =
          get_websocket_line
            (c\<lparr>wire_in := Data rest # arrs, allocs := allocs c @ [length payload + 1],
               sent := sent c @ unmasked_frame 0xA payload\<rparr>) \<and>
        unmasked_frame 0xA payload = [0x8a, mpay AND 0x7f] @ payload) \<and>
     (fop AND 0xf = 0xA \<longrightarrow>
        get_websocket_line c =
          get_websocket_line
            (c\<lparr>wire_in := Data rest # arrs, allocs := allocs c @ [length payload + 1]\<rparr>))"
proof (intro impI conjI)
  assume a: "mpay AND 0x80 \<noteq> 0 \<and> mpay AND 0x7f \<le> 125 \<and> length mk = 4 \<and>
   length payload = unat (mpay AND 0x7f) \<and>
   wire_in c = Data (fop # mpay # mk @ xor_mask mk payload @ rest) # arrs"
  let ?c1 = "c\<lparr>wire_in := Data (mpay # mk @ xor_mask mk payload @ rest) # arrs\<rparr>"
  let ?c2 = "c\<lparr>wire_in := Data rest # arrs, allocs := allocs c @ [length payload + 1]\<rparr>"
  from a have hd: "get_websocket_line c = get_websocket_line_loop (fop AND 0xf) ?c1"
    by (elim conjE) (rule control_frame_read(1))
  from a have dt: "get_websocket_data ?c1 = (Returns (payload @ [0]), ?c2)"
    by (elim conjE) (rule control_frame_read(2))
  from a have fr: "unmasked_frame 0xA payload = [0x8a, mpay AND 0x7f] @ payload"
    using unmasked_frame_short [of payload "mpay AND 0x7f" "0xA"] by simp
  from a have n: "(of_nat (length payload) :: byte) = mpay AND 0x7f" by simp
  {
    assume p: "fop AND 0xf = 9 \<and> socket c \<noteq> None \<and> write_error c = None"
    then have s: "socket ?c2 \<noteq> None" "write_error ?c2 = None" by simp_all
    show "unmasked_frame 0xA payload = [0x8a, mpay AND 0x7f] @ payload" by (rule fr)
    show "get_websocket_line c =
          get_websocket_line
            (c\<lparr>wire_in := Data rest # arrs, allocs := allocs c @ [length payload + 1],
               sent := sent c @ unmasked_frame 0xA payload\<rparr>)"
      using get_websocket_line_loop_ping [OF dt s] p hd n by (simp add: fr)
  }
  {
    assume "fop AND 0xf = 0xA"
    then show "get_websocket_line c = get_websocket_line ?c2"
      using get_websocket_line_loop_pong [OF dt] hd by simp
  }
qed

lemma await_next_frame: "get_websocket_line (c\<lparr>wire_in := [Data []]\<rparr>) = (Blocks, c\<lparr>wire_in := []\<rparr>)"
  by (simp add: get_websocket_line_def asio_read_def)

text \<open>A frame whose mask bit is clear, in any of the three length encodings.\<close>

lemma get_websocket_data_unmasked:
  assumes m: "mpay AND 0x80 = 0"
    and e: "length ext = (if mpay AND 0x7f = 126 then 2 else if mpay AND 0x7f = 127 then 8 else 0)"
    and w: "wire_in c = Data (mpay # ext @ rest) # arrs"
  shows "\<exists>msg. get_websocket_data c =
           (Throws SilentException, log_msg Warn msg (c\<lparr>wire_in := Data rest # arrs\<rparr>))"
proof -
  let ?c1 = "c\<lparr>wire_in := Data (ext @ rest) # arrs\<rparr>"
  let ?c2 = "c\<lparr>wire_in := Data rest # arrs\<rparr>"
  have r1: "asio_read 1 c = (Returns [mpay], ?c1)"
    using asio_read_chunk [OF w, of 1] by simp
  have w1: "wire_in ?c1 = Data (ext @ rest) # arrs" by simp
  consider (ext16) "mpay AND 0x7f = 126" | (ext64) "mpay AND 0x7f = 127"
    | (short) "mpay AND 0x7f \<noteq> 126" "mpay AND 0x7f \<noteq> 127"
    by blast
  then show ?thesis
  proof cases
    case short
    then have "get_websocket_data c =
        (Throws SilentException, log_msg Warn ''WebSocket received unmasked data!'' ?c1)"
      using m r1 by (auto simp: get_websocket_data_def Let_def ws_payload_unmasked)
    moreover from short e have "ext = []" by simp
    ultimately show ?thesis by auto
  next
    case ext16
    with e have l: "length ext = 2" by simp
    then have r2: "asio_read 2 ?c1 = (Returns ext, ?c2)"
      using asio_read_chunk [OF w1, of 2] by simp
    have "get_websocket_data c =
        (Throws SilentException, log_msg Warn ''WebSocket received unmasked data!'' ?c2)"
      using m ext16 r1 r2 by (simp add: get_websocket_data_def Let_def ws_payload_unmasked)
    then show ?thesis by blast
  next
    case ext64
    with e have l: "length ext = 8" by simp
    let ?c3 = "c\<lparr>wire_in := Data (drop 4 ext @ rest) # arrs\<rparr>"
    have r2: "asio_read 4 ?c1 = (Returns (take 4 ext), ?c3)"
      using asio_read_chunk [OF w1, of 4] l by simp
    have w3: "wire_in ?c3 = Data (drop 4 ext @ rest) # arrs" by simp
    have r3: "asio_read 4 ?c3 = (Returns (drop 4 ext), ?c2)"
      using asio_read_chunk [OF w3, of 4] l by simp
    have n: "(126 :: byte) \<noteq> 127" by simp
    show ?thesis
      using m ext64 r1 r2 r3 n
      by (auto simp: get_websocket_data_def Let_def ws_payload_unmasked)
  qed
qed

lemma control_frame_continues:
  assumes w: "wire_in c = Data (fop # tail) # arrs"
    and o: "fop AND 0xf = 9 \<or> fop AND 0xf = 0xA"
  shows "get_websocket_line c =
     bind_io (get_websocket_data (c\<lparr>wire_in := Data tail # arrs\<rparr>))
       (\<lambda>pingd c1. bind_io (if fop AND 0xf = 9 then send_pong_reply pingd c1 else (Returns (), c1))
          (\<lambda>_ c2. get_websocket_line c2))"
proof -
  let ?c0 = "c\<lparr>wire_in := Data tail # arrs\<rparr>"
  have hd: "get_websocket_line c = get_websocket_line_loop (fop AND 0xf) ?c0"
    by (rule get_websocket_line_header [OF w])
  obtain r1 c1 where r1: "get_websocket_data ?c0 = (r1, c1)"
    by (cases "get_websocket_data ?c0")
  show ?thesis
  proof (cases r1)
    case (Returns pingd)
    let ?m = "if fop AND 0xf = 9 then send_pong_reply pingd c1 else (Returns (), c1)"
    obtain r2 c2 where r2: "?m = (r2, c2)" by (cases ?m)
    have r2': "(if 9 = fop AND 0xf then send_pong_reply pingd c1 else (Returns (), c1)) = (r2, c2)"
      using r2 by (simp add: eq_commute [of 9])
    show ?thesis
    proof (cases r2)
      case (Returns u)
      obtain r3 c3 where r3: "asio_read 1 c2 = (r3, c3)" by (cases "asio_read 1 c2")
      show ?thesis
        using o r1 \<open>r1 = Returns pingd\<close> r2 r2' Returns r3 hd
        by (cases r3)
           (auto simp: get_websocket_line_loop.simps [of "fop AND 0xf" ?c0] get_websocket_line_def)
    next
      case (Throws ex)
      then show ?thesis
        using o r1 \<open>r1 = Returns pingd\<close> r2 r2' hd
        by (auto simp: get_websocket_line_loop.simps [of "fop AND 0xf" ?c0])
    next
      case Blocks
      then show ?thesis
        using o r1 \<open>r1 = Returns pingd\<close> r2 r2' hd
        by (auto simp: get_websocket_line_loop.simps [of "fop AND 0xf" ?c0])
    qed
  next
    case (Throws ex)
    then show ?thesis
      using o r1 hd by (auto simp: get_websocket_line_loop.simps [of "fop AND 0xf" ?c0])
  next
    case Blocks
    then show ?thesis
      using o r1 hd by (auto simp: get_websocket_line_loop.simps [of "fop AND 0xf" ?c0])
  qed
qed

lemma unmasked_control_frame:
  assumes m: "mpay AND 0x80 = 0"
    and e: "length ext = (if mpay AND 0x7f = 126 then 2 else if mpay AND 0x7f = 127 then 8 else 0)"
    and o: "fop AND 0xf = 9 \<or> fop AND 0xf = 0xA"
    and w: "wire_in c = Data (fop # mpay # ext @ rest) # arrs"
  shows "\<exists>msg. get_websocket_line c =
           (Throws SilentException, log_msg Warn msg (c\<lparr>wire_in := Data rest # arrs\<rparr>))"
proof -
  let ?c0 = "c\<lparr>wire_in := Data (mpay # ext @ rest) # arrs\<rparr>"
  have "wire_in ?c0 = Data (mpay # ext @ rest) # arrs" by simp
  from get_websocket_data_unmasked [OF m e this]
  obtain msg where d: "get_websocket_data ?c0 =
      (Throws SilentException, log_msg Warn msg (c\<lparr>wire_in := Data rest # arrs\<rparr>))"
    by auto
  have "get_websocket_line c =
      (Throws SilentException, log_msg Warn msg (c\<lparr>wire_in := Data rest # arrs\<rparr>))"
    unfolding control_frame_continues [OF w o] d by simp
  then show ?thesis ..
qed

text \<open>
  C7, as the code has it. A masked ping frame (opcode 9) whose payload has at most 125
  bytes, the most a control frame may carry, is answered on a connection whose socket
  is installed and whose peer accepts the write with the unmasked pong frame \<open>0x8A, n\<close>
  followed by the \<open>n\<close> payload bytes of the ping, and the call then goes on as a fresh
  call on the rest of the input. A masked pong frame (opcode 0xA) of that size is read
  and dropped, nothing is sent, and the call goes on in the same way. A ping or pong
  frame whose mask bit is clear is rejected: once its length bytes have been read the
  call ends with \<^verbatim>\<open>SilentException\<close>, with a warning in the log and nothing sent. And
  for every frame with opcode 9 or 0xA, of any length and masked or not, the call is
  the decoding of that frame, the reply if it is a ping, and then a fresh call on what
  follows: what the call returns is never the payload of the ping or pong.
\<close>

theorem ping_answered_with_pong:
  "(mpay AND 0x80 \<noteq> 0 \<and> mpay AND 0x7f \<le> 125 \<and> length mk = 4 \<and>
    length payload = unat (mpay AND 0x7f) \<and>
    wire_in c = Data (fop # mpay # mk @ xor_mask mk payload @ rest) # arrs \<longrightarrow>
      (fop AND 0xf = 9 \<and> socket c \<noteq> None \<and> write_error c = None \<longrightarrow>
         get_websocket_line c =
           get_websocket_line
             (c\<lparr>wire_in := Data rest # arrs, allocs := allocs c @ [length payload + 1],
                sent := sent c @ unmasked_frame 0xA payload\<rparr>) \<and>
         unmasked_frame 0xA payload = [0x8a, mpay AND 0x7f] @ payload) \<and>
      (fop AND 0xf = 0xA \<longrightarrow>
         get_websocket_line c =
           get_websocket_line
             (c\<lparr>wire_in := Data rest # arrs, allocs := allocs c @ [length payload + 1]\<rparr>))) \<and>
   (mpay AND 0x80 = 0 \<and>
    length ext = (if mpay AND 0x7f = 126 then 2 else if mpay AND 0x7f = 127 then 8 else 0) \<and>
    (fop AND 0xf = 9 \<or> fop AND 0xf = 0xA) \<and>
    wire_in c = Data (fop # mpay # ext @ rest) # arrs \<longrightarrow>
      (\<exists>msg. get_websocket_line c =
         (Throws SilentException, log_msg Warn msg (c\<lparr>wire_in := Data rest # arrs\<rparr>))) \<and>
      sent (snd (get_websocket_line c)) = sent c) \<and>
   (wire_in c = Data (fop # tail) # arrs \<and> (fop AND 0xf = 9 \<or> fop AND 0xf = 0xA) \<longrightarrow>
      get_websocket_line c =
        bind_io (get_websocket_data (c\<lparr>wire_in := Data tail # arrs\<rparr>))
          (\<lambda>pingd c1. bind_io (if fop AND 0xf = 9 then send_pong_reply pingd c1
                                else (Returns (), c1))
             (\<lambda>_ c2. get_websocket_line c2)))"
proof -
  have 1: "mpay AND 0x80 \<noteq> 0 \<and> mpay AND 0x7f \<le> 125 \<and> length mk = 4 \<and>
      length payload = unat (mpay AND 0x7f) \<and>
      wire_in c = Data (fop # mpay # mk @ xor_mask mk payload @ rest) # arrs \<longrightarrow>
        (fop AND 0xf = 9 \<and> socket c \<noteq> None \<and> write_error c = None \<longrightarrow>
           get_websocket_line c =
             get_websocket_line
               (c\<lparr>wire_in := Data rest # arrs, allocs := allocs c @ [length payload + 1],
                  sent := sent c @ unmasked_frame 0xA payload\<rparr>) \<and>
           unmasked_frame 0xA payload = [0x8a, mpay AND 0x7f] @ payload) \<and>
        (fop AND 0xf = 0xA \<longrightarrow>
           get_websocket_line c =
             get_websocket_line
               (c\<lparr>wire_in := Data rest # arrs, allocs := allocs c @ [length payload + 1]\<rparr>))"
    by (rule masked_control_frame)
  have 2: "mpay AND 0x80 = 0 \<and>
    length ext = (if mpay AND 0x7f = 126 then 2 else if mpay AND 0x7f = 127 then 8 else 0) \<and>
    (fop AND 0xf = 9 \<or> fop AND 0xf = 0xA) \<and>
    wire_in c = Data (fop # mpay # ext @ rest) # arrs \<longrightarrow>
      (\<exists>msg. get_websocket_line c =
         (Throws SilentException, log_msg Warn msg (c\<lparr>wire_in := Data rest # arrs\<rparr>))) \<and>
      sent (snd (get_websocket_line c)) = sent c"
  proof (intro impI)
    assume a: "mpay AND 0x80 = 0 \<and>
      length ext = (if mpay AND 0x7f = 126 then 2 else if mpay AND 0x7f = 127 then 8 else 0) \<and>
      (fop AND 0xf = 9 \<or> fop AND 0xf = 0xA) \<and>
      wire_in c = Data (fop # mpay # ext @ rest) # arrs"
    then have e: "\<exists>msg. get_websocket_line c =
         (Throws SilentException, log_msg Warn msg (c\<lparr>wire_in := Data rest # arrs\<rparr>))"
      by (elim conjE) (rule unmasked_control_frame)
    then obtain msg where "get_websocket_line c =
         (Throws SilentException, log_msg Warn msg (c\<lparr>wire_in := Data rest # arrs\<rparr>))" ..
    then have "sent (snd (get_websocket_line c)) = sent c"
      by (simp add: log_msg_def)
    with e show "(\<exists>msg. get_websocket_line c =
         (Throws SilentException, log_msg Warn msg (c\<lparr>wire_in := Data rest # arrs\<rparr>))) \<and>
      sent (snd (get_websocket_line c)) = sent c" ..
  qed
  have 3: "wire_in c = Data (fop # tail) # arrs \<and> (fop AND 0xf = 9 \<or> fop AND 0xf = 0xA) \<longrightarrow>
      get_websocket_line c =
        bind_io (get_websocket_data (c\<lparr>wire_in := Data tail # arrs\<rparr>))
          (\<lambda>pingd c1. bind_io (if fop AND 0xf = 9 then send_pong_reply pingd c1
                                else (Returns (), c1))
             (\<lambda>_ c2. get_websocket_line c2))"
    by (intro impI, elim conjE) (rule control_frame_continues)
  show ?thesis
    by (rule conjI [OF 1 conjI [OF 2 3]])
qed

theorem ping_answered_with_pong_witness:
  "(0x85 :: byte) AND 0x80 \<noteq> 0 \<and> (0x85 :: byte) AND 0x7f \<le> 125 \<and>
   length [1, 2, 3, 4 :: byte] = 4 \<and>
   length [0x68, 0x65, 0x6c, 0x6c, 0x6f :: byte] = unat ((0x85 :: byte) AND 0x7f) \<and>
   (0x89 :: byte) AND 0xf = 9 \<and> (0x8A :: byte) AND 0xf = 0xA \<and>
   get_websocket_line (connected [Data [0x89, 0x85, 1, 2, 3, 4, 0x69, 0x67, 0x6f, 0x68, 0x6e]]) =
     (Blocks, (connected [])\<lparr>allocs := [6], sent := [0x8a, 0x05, 0x68, 0x65, 0x6c, 0x6c, 0x6f]\<rparr>) \<and>
   get_websocket_line (connected [Data [0x8A, 0x85, 1, 2, 3, 4, 0x69, 0x67, 0x6f, 0x68, 0x6e]]) =
     (Blocks, (connected [])\<lparr>allocs := [6]\<rparr>) \<and>
   (0x05 :: byte) AND 0x80 = 0 \<and>
   fst (get_websocket_line (connected [Data [0x8A, 0x05, 0x68, 0x65, 0x6c, 0x6c, 0x6f]])) =
     Throws SilentException \<and>
   sent (snd (get_websocket_line (connected [Data [0x8A, 0x05, 0x68, 0x65, 0x6c, 0x6c, 0x6f]]))) = [] \<and>
   get_websocket_line (connected [Data [0x8A, 0x05, 0x68, 0x65, 0x6c, 0x6c, 0x6f]]) =
     bind_io (get_websocket_data (connected [Data [0x05, 0x68, 0x65, 0x6c, 0x6c, 0x6f]]))
       (\<lambda>pingd c1. bind_io (if (0x8A :: byte) AND 0xf = 9 then send_pong_reply pingd c1
                             else (Returns (), c1))
          (\<lambda>_ c2. get_websocket_line c2))"
proof -
  let ?p = "connected [Data [0x89, 0x85, 1, 2, 3, 4, 0x69, 0x67, 0x6f, 0x68, 0x6e]] :: unit conn"
  let ?q = "connected [Data [0x8A, 0x85, 1, 2, 3, 4, 0x69, 0x67, 0x6f, 0x68, 0x6e]] :: unit conn"
  let ?u = "connected [Data [0x8A, 0x05, 0x68, 0x65, 0x6c, 0x6c, 0x6f]] :: unit conn"
  let ?r1 = "(connected [])\<lparr>allocs := [6], sent := [0x8a, 0x05, 0x68, 0x65, 0x6c, 0x6c, 0x6f]\<rparr> :: unit conn"
  let ?r2 = "(connected [])\<lparr>allocs := [6]\<rparr> :: unit conn"
  have x: "xor_mask [1, 2, 3, 4] [0x68, 0x65, 0x6c, 0x6c, 0x6f] = [0x69, 0x67, 0x6f, 0x68, 0x6e]"
    by (rule xor_mask_hello)
  have l: "length [0x68, 0x65, 0x6c, 0x6c, 0x6f :: byte] + 1 = 6" by simp
  have wp: "wire_in ?p = Data (0x89 # 0x85 # [1, 2, 3, 4] @ xor_mask [1, 2, 3, 4] [0x68, 0x65, 0x6c, 0x6c, 0x6f] @ []) # []"
    and wq: "wire_in ?q = Data (0x8A # 0x85 # [1, 2, 3, 4] @ xor_mask [1, 2, 3, 4] [0x68, 0x65, 0x6c, 0x6c, 0x6f] @ []) # []"
    and s: "socket ?p \<noteq> None" "write_error ?p = None"
    by (simp_all add: connected_def x)
  have h: "(0x85 :: byte) AND 0x80 \<noteq> 0 \<and> (0x85 :: byte) AND 0x7f \<le> 125 \<and>
      length [1, 2, 3, 4 :: byte] = 4 \<and>
      length [0x68, 0x65, 0x6c, 0x6c, 0x6f :: byte] = unat ((0x85 :: byte) AND 0x7f)"
    and o: "(0x89 :: byte) AND 0xf = 9" "(0x8A :: byte) AND 0xf = 0xA"
    by simp_all
  have f: "unmasked_frame 0xA [0x68, 0x65, 0x6c, 0x6c, 0x6f] = [0x8a, 0x05, 0x68, 0x65, 0x6c, 0x6c, 0x6f]"
    by (simp add: unmasked_frame_def)
  have e1: "?p\<lparr>wire_in := Data [] # [], allocs := allocs ?p @ [6],
               sent := sent ?p @ [0x8a, 0x05, 0x68, 0x65, 0x6c, 0x6c, 0x6f]\<rparr> = ?r1\<lparr>wire_in := [Data []]\<rparr>"
    and e2: "?q\<lparr>wire_in := Data [] # [], allocs := allocs ?q @ [6]\<rparr> = ?r2\<lparr>wire_in := [Data []]\<rparr>"
    and e3: "?r1\<lparr>wire_in := []\<rparr> = ?r1" "?r2\<lparr>wire_in := []\<rparr> = ?r2"
    by (simp_all add: connected_def)
  note tp = ping_answered_with_pong
    [where c = ?p and fop = "0x89" and mpay = "0x85" and mk = "[1, 2, 3, 4]"
       and payload = "[0x68, 0x65, 0x6c, 0x6c, 0x6f]" and rest = "[]" and arrs = "[]",
     THEN conjunct1, unfolded l f]
  note tq = ping_answered_with_pong
    [where c = ?q and fop = "0x8A" and mpay = "0x85" and mk = "[1, 2, 3, 4]"
       and payload = "[0x68, 0x65, 0x6c, 0x6c, 0x6f]" and rest = "[]" and arrs = "[]",
     THEN conjunct1, unfolded l f]
  have "get_websocket_line ?p = get_websocket_line (?r1\<lparr>wire_in := [Data []]\<rparr>)"
    using tp h wp o(1) s unfolding e1 by blast
  then have g1: "get_websocket_line ?p = (Blocks, ?r1)"
    unfolding await_next_frame e3 .
  have "get_websocket_line ?q = get_websocket_line (?r2\<lparr>wire_in := [Data []]\<rparr>)"
    using tq h wq o(2) unfolding e2 by blast
  then have g2: "get_websocket_line ?q = (Blocks, ?r2)"
    unfolding await_next_frame e3 .
  have m: "(0x05 :: byte) AND 0x80 = 0" by simp
  have le: "length ([] :: byte list) =
      (if (0x05 :: byte) AND 0x7f = 126 then 2 else if (0x05 :: byte) AND 0x7f = 127 then 8 else 0)"
    by simp
  have wu: "wire_in ?u = Data (0x8A # 0x05 # [] @ [0x68, 0x65, 0x6c, 0x6c, 0x6f]) # []"
    and wu': "wire_in ?u = Data (0x8A # [0x05, 0x68, 0x65, 0x6c, 0x6c, 0x6f]) # []"
    and su: "sent ?u = []"
    and eu: "?u\<lparr>wire_in := Data [0x05, 0x68, 0x65, 0x6c, 0x6c, 0x6f] # []\<rparr> =
             connected [Data [0x05, 0x68, 0x65, 0x6c, 0x6c, 0x6f]]"
    by (simp_all add: connected_def)
  note t2 = ping_answered_with_pong
    [where c = ?u and fop = "0x8A" and mpay = "0x05" and ext = "[]"
       and rest = "[0x68, 0x65, 0x6c, 0x6c, 0x6f]" and arrs = "[]",
     THEN conjunct2, THEN conjunct1, rule_format, OF conjI [OF m conjI [OF le conjI [OF disjI2 [OF o(2)] wu]]]]
  from t2 have g3: "fst (get_websocket_line ?u) = Throws SilentException"
    and g4: "sent (snd (get_websocket_line ?u)) = []"
    by (auto simp: su)
  note t3 = ping_answered_with_pong
    [where c = ?u and fop = "0x8A" and tail = "[0x05, 0x68, 0x65, 0x6c, 0x6c, 0x6f]" and arrs = "[]",
     THEN conjunct2, THEN conjunct2, rule_format, OF conjI [OF wu' disjI2 [OF o(2)]], unfolded eu]
  from h o g1 g2 m g3 g4 t3 show ?thesis by blast
qed

text \<open>
  The claim as the spec words it (for every incoming ping frame) fails for a ping
  whose mask bit is clear: the decoder rejects every unmasked frame on purpose. The
  ping \<open>0x89, 0x05\<close> with the payload \<open>hello\<close> ends the call with \<^verbatim>\<open>SilentException\<close> and a
  warning in the log; no pong is sent, and the payload is left unread.
\<close>

theorem unmasked_ping_counterexample:
  "(0x89 :: byte) AND 0xf = 9 \<and>
   get_websocket_line (connected [Data [0x89, 0x05, 0x68, 0x65, 0x6c, 0x6c, 0x6f]]) =
     (Throws SilentException,
      (connected [Data [0x68, 0x65, 0x6c, 0x6c, 0x6f]])
        \<lparr>logged := [(Warn, ''WebSocket received unmasked data!'')]\<rparr>) \<and>
   sent (snd (get_websocket_line (connected [Data [0x89, 0x05, 0x68, 0x65, 0x6c, 0x6c, 0x6f]]))) = []"
  by (simp add: get_websocket_line_def get_websocket_line_loop.simps [of 9] get_websocket_data_def
      ws_payload_def asio_read_def log_msg_def connected_def)

text \<open>
  A ping of more than 125 bytes, which the decoder accepts, is outside the statement
  above. The reply always has a two-byte header with the low eight bits of the length
  in its second byte: for a ping of 126 bytes the bytes sent are \<open>0x8A, 0x7E\<close> and the
  payload, which is not the pong frame with that payload (\<open>0x8A, 0x7E, 0x00, 0x7E\<close> and
  the payload).
\<close>

lemma long_ping_reply_header:
  "(0x89 :: byte) AND 0xf = 9 \<and>
   sent (snd (get_websocket_line
      (connected [Data (0x89 # 0xFE # be16 126 @ [1, 2, 3, 4] @
                        xor_mask [1, 2, 3, 4] (replicate 126 0x41))]))) =
     [0x8a, 0x7e] @ replicate 126 0x41 \<and>
   unmasked_frame 0xA (replicate 126 0x41) = [0x8a, 0x7e, 0x00, 0x7e] @ replicate 126 0x41 \<and>
   sent (snd (get_websocket_line
      (connected [Data (0x89 # 0xFE # be16 126 @ [1, 2, 3, 4] @
                        xor_mask [1, 2, 3, 4] (replicate 126 0x41))]))) \<noteq>
     unmasked_frame 0xA (replicate 126 0x41)"
proof -
  let ?p = "replicate 126 (0x41 :: byte)"
  let ?body = "0xFE # be16 126 @ [1, 2, 3, 4] @ xor_mask [1, 2, 3, 4] ?p @ []"
  let ?c = "connected [Data (0x89 # 0xFE # be16 126 @ [1, 2, 3, 4] @ xor_mask [1, 2, 3, 4] ?p)] :: unit conn"
  let ?c1 = "?c\<lparr>wire_in := Data ?body # []\<rparr>"
  let ?c2 = "?c1\<lparr>wire_in := Data [] # [], allocs := allocs ?c1 @ [length (xor_mask [1, 2, 3, 4] ?p) + 1]\<rparr>"
  have w: "wire_in ?c = Data (0x89 # ?body) # []"
    by (simp add: connected_def)
  have hd: "get_websocket_line ?c = get_websocket_line_loop 9 ?c1"
    using get_websocket_line_header [OF w] by simp
  have dt: "get_websocket_data ?c1 = (Returns (xor_mask [1, 2, 3, 4] (xor_mask [1, 2, 3, 4] ?p) @ [0]), ?c2)"
    by (rule get_websocket_data_ext16 [where mpay = "0xFE" and ?len16.0 = 126]) simp_all
  have s: "socket ?c2 \<noteq> None" "write_error ?c2 = None"
    by (simp_all add: connected_def)
  have "get_websocket_line ?c =
      get_websocket_line (?c2\<lparr>sent := sent ?c2 @ [0x8a, of_nat (length (?p @ [0]) - 1)] @ take (length (?p @ [0]) - 1) (?p @ [0])\<rparr>)"
    using get_websocket_line_loop_ping [OF dt s] hd by (simp add: xor_mask_involution)
  also have "?c2\<lparr>sent := sent ?c2 @ [0x8a, of_nat (length (?p @ [0]) - 1)] @ take (length (?p @ [0]) - 1) (?p @ [0])\<rparr>
      = ((connected [])\<lparr>allocs := [127], sent := [0x8a, 0x7e] @ ?p\<rparr>)\<lparr>wire_in := [Data []]\<rparr>"
    by (simp add: connected_def)
  also have "get_websocket_line \<dots> = (Blocks, ((connected [])\<lparr>allocs := [127], sent := [0x8a, 0x7e] @ ?p\<rparr>)\<lparr>wire_in := []\<rparr>)"
    by (rule await_next_frame)
  finally have r: "sent (snd (get_websocket_line ?c)) = [0x8a, 0x7e] @ ?p"
    by simp
  have f: "unmasked_frame 0xA ?p = [0x8a, 0x7e, 0x00, 0x7e] @ ?p"
    by (simp add: unmasked_frame_def be16_def)
  have "length ([0x8a, 0x7e] @ ?p) \<noteq> length ([0x8a, 0x7e, 0x00, 0x7e] @ ?p)"
    by simp
  then have "[0x8a, 0x7e] @ ?p \<noteq> [0x8a, 0x7e, 0x00, 0x7e] @ ?p"
    by metis
  with r f show ?thesis by simp
qed


section \<open>Properties of the read loop\<close>

lemma read_until_fails:
  assumes "no_terminator b" and "wire_in c = Fail e # arrs"
  shows "read_until b c = (Throws (system_error e), c\<lparr>wire_in := arrs\<rparr>, b)"
proof -
  from assms(1) have "\<not> snd (match_eol_or_escape b)"
    by (simp add: no_terminator_no_match)
  then obtain k where "match_eol_or_escape (drop 0 b) = (k, False)"
    by (cases "match_eol_or_escape b") auto
  with assms(2) show ?thesis
    by (simp add: read_until_def)
qed

lemma pass_read_error:
  assumes "no_terminator b" and "wire_in c = Fail e # arrs"
  shows "handle_connection_pass OnLine b c =
           catch_system_error (system_error e) b (c\<lparr>status := ''iwait'', wire_in := arrs\<rparr>)"
proof -
  have "read_until b (c\<lparr>status := ''iwait''\<rparr>) =
      (Throws (system_error e), c\<lparr>status := ''iwait'', wire_in := arrs\<rparr>, b)"
    using read_until_fails [OF assms(1), of "c\<lparr>status := ''iwait''\<rparr>" e arrs] assms(2) by simp
  then show ?thesis
    by (simp add: handle_connection_pass_def)
qed

lemma catch_benign:
  "e = eof \<or> e = connection_reset \<or> e = not_connected \<Longrightarrow>
   catch_system_error (system_error e) b c = Break b c"
  by (auto simp: catch_system_error_def)

lemma catch_other:
  "e \<noteq> eof \<Longrightarrow> e \<noteq> connection_reset \<Longrightarrow> e \<noteq> not_connected \<Longrightarrow>
   catch_system_error (system_error e) b c =
     Again b (log_msg Error ''ServerSocket::handle_connection(): Error reading data. Message: %s'' c)"
  by (simp add: catch_system_error_def)

subsection \<open>Claim C2: transport errors in the read loop\<close>

text \<open>
  The \<^verbatim>\<open>catch\<close> clause, for every error code. It leaves the loop, without an entry in
  the log, for \<open>eof\<close>, \<open>connection_reset\<close> and \<open>not_connected\<close>. For every other error
  code it writes an entry at error level and does not leave the loop: the next pass
  starts with the same stream buffer and reads from the socket again. Both are stated
  for the clause itself (which also catches what \<^verbatim>\<open>OnLine\<close> throws) and for a loop
  whose next read fails when the buffer holds no complete unit.
\<close>

lemma read_error_is_logged_and_loop_goes_on:
  "(e \<noteq> eof \<and> e \<noteq> connection_reset \<and> e \<noteq> not_connected \<longrightarrow>
      catch_system_error (system_error e) b c =
        Again b (log_msg Error
          ''ServerSocket::handle_connection(): Error reading data. Message: %s'' c) \<and>
      (no_terminator b \<and> wire_in c = Fail e # arrs \<longrightarrow>
         handle_connection_loop OnLine b c =
           handle_connection_loop OnLine b
             (log_msg Error ''ServerSocket::handle_connection(): Error reading data. Message: %s''
                (c\<lparr>status := ''iwait'', wire_in := arrs\<rparr>)))) \<and>
   (e = eof \<or> e = connection_reset \<or> e = not_connected \<longrightarrow>
      catch_system_error (system_error e) b c = Break b c \<and>
      (no_terminator b \<and> wire_in c = Fail e # arrs \<longrightarrow>
         handle_connection_loop OnLine b c =
           (Returns (), b, c\<lparr>status := ''iwait'', wire_in := arrs\<rparr>) \<and>
         logged (snd (snd (handle_connection_loop OnLine b c))) = logged c))"
proof (intro conjI impI)
  assume o: "e \<noteq> eof \<and> e \<noteq> connection_reset \<and> e \<noteq> not_connected"
  then show "catch_system_error (system_error e) b c =
        Again b (log_msg Error
          ''ServerSocket::handle_connection(): Error reading data. Message: %s'' c)"
    by (simp add: catch_other)
  assume "no_terminator b \<and> wire_in c = Fail e # arrs"
  then have "handle_connection_pass OnLine b c =
      catch_system_error (system_error e) b (c\<lparr>status := ''iwait'', wire_in := arrs\<rparr>)"
    by (elim conjE) (rule pass_read_error)
  with o show "handle_connection_loop OnLine b c =
           handle_connection_loop OnLine b
             (log_msg Error ''ServerSocket::handle_connection(): Error reading data. Message: %s''
                (c\<lparr>status := ''iwait'', wire_in := arrs\<rparr>))"
    by (simp add: handle_connection_loop.simps [of OnLine b c] catch_other)
next
  assume o: "e = eof \<or> e = connection_reset \<or> e = not_connected"
  then show "catch_system_error (system_error e) b c = Break b c"
    by (rule catch_benign)
  assume "no_terminator b \<and> wire_in c = Fail e # arrs"
  then have "handle_connection_pass OnLine b c =
      catch_system_error (system_error e) b (c\<lparr>status := ''iwait'', wire_in := arrs\<rparr>)"
    by (elim conjE) (rule pass_read_error)
  with o show l: "handle_connection_loop OnLine b c =
           (Returns (), b, c\<lparr>status := ''iwait'', wire_in := arrs\<rparr>)"
    by (simp add: handle_connection_loop.simps [of OnLine b c] catch_benign)
  show "logged (snd (snd (handle_connection_loop OnLine b c))) = logged c"
    by (simp add: l)
qed


lemma read_error_is_logged_and_loop_goes_on_example:
  "operation_aborted \<noteq> eof \<and> operation_aborted \<noteq> connection_reset \<and>
   operation_aborted \<noteq> not_connected \<and> no_terminator [] \<and>
   handle_connection_loop echo_hook [] (connected [Fail operation_aborted]) =
     handle_connection_loop echo_hook []
       (log_msg Error ''ServerSocket::handle_connection(): Error reading data. Message: %s''
          ((connected [Fail operation_aborted])\<lparr>status := ''iwait'', wire_in := []\<rparr>)) \<and>
   handle_connection_loop echo_hook [] (connected [Fail eof]) =
     (Returns (), [], (connected [Fail eof])\<lparr>status := ''iwait'', wire_in := []\<rparr>)"
proof -
  have n: "no_terminator []" by (simp add: no_terminator_def)
  have w: "wire_in (connected [Fail operation_aborted]) = Fail operation_aborted # []"
    "wire_in (connected [Fail eof]) = Fail eof # []"
    by (simp_all add: connected_def)
  show ?thesis
    using n w
      read_error_is_logged_and_loop_goes_on
        [of operation_aborted "[]" "connected [Fail operation_aborted]" "[]" echo_hook]
      read_error_is_logged_and_loop_goes_on
        [of eof "[]" "connected [Fail eof]" "[]" echo_hook]
    by simp
qed

text \<open>
  A read fails with \<open>operation_aborted\<close>; the loop logs the error and reads again. The
  line \<open>hi\<close> that arrives after the failure is still handed to \<^verbatim>\<open>OnLine\<close> (which sends it
  back), and the loop only ends at the end of the stream.
\<close>

lemma read_error_then_line:
  "handle_connection_loop echo_hook []
     (connected [Fail operation_aborted, Data [0x68, 0x69, 0x0A], Fail eof]) =
   (Returns (), [],
    (connected [])\<lparr>status := ''iwait'', sent := [0x68, 0x69],
      logged := [(Error, ''ServerSocket::handle_connection(): Error reading data. Message: %s'')]\<rparr>)"
proof -
  let ?msg = "''ServerSocket::handle_connection(): Error reading data. Message: %s''"
  let ?c0 = "connected [Fail operation_aborted, Data [0x68, 0x69, 0x0A], Fail eof] :: unit conn"
  let ?c1 = "log_msg Error ?msg (?c0\<lparr>status := ''iwait'', wire_in := [Data [0x68, 0x69, 0x0A], Fail eof]\<rparr>)"
  let ?c2 = "(connected [Fail eof])\<lparr>status := '' run '', sent := [0x68, 0x69], logged := [(Error, ?msg)]\<rparr> :: unit conn"
  have n: "no_terminator []" by (simp add: no_terminator_def)
  have p1: "handle_connection_pass echo_hook [] ?c0 = Again [] ?c1"
    using pass_read_error [OF n, of ?c0 operation_aborted "[Data [0x68, 0x69, 0x0A], Fail eof]" echo_hook]
    by (simp add: catch_other connected_def)
  have p2: "handle_connection_pass echo_hook [] ?c1 = Again [] ?c2"
    by (simp add: handle_connection_pass_def read_until_def match_eol_or_escape_def getline_def
        strip_cr_def run_hook_def echo_hook_def Send_def Let_def IAC_def log_msg_def connected_def)
  have p3: "handle_connection_pass echo_hook [] ?c2 = Break [] (?c2\<lparr>status := ''iwait'', wire_in := []\<rparr>)"
    using pass_read_error [OF n, of ?c2 eof "[]" echo_hook]
    by (simp add: catch_benign connected_def)
  have "handle_connection_loop echo_hook [] ?c0 = handle_connection_loop echo_hook [] ?c1"
    by (simp add: handle_connection_loop.simps [of echo_hook "[]" ?c0] p1)
  also have "\<dots> = handle_connection_loop echo_hook [] ?c2"
    by (simp add: handle_connection_loop.simps [of echo_hook "[]" ?c1] p2)
  also have "\<dots> = (Returns (), [], ?c2\<lparr>status := ''iwait'', wire_in := []\<rparr>)"
    by (simp add: handle_connection_loop.simps [of echo_hook "[]" ?c2] p3)
  finally show ?thesis
    by (simp add: connected_def)
qed

text \<open>
  Reads that fail with \<open>bad_descriptor\<close>, as they do once the socket has been closed:
  every one is logged and followed by another read.
\<close>

lemma failing_reads_are_retried:
  "handle_connection_loop echo_hook []
     (connected [Fail bad_descriptor, Fail bad_descriptor, Fail bad_descriptor, Fail eof]) =
   (Returns (), [],
    (connected [])\<lparr>status := ''iwait'',
      logged := [(Error, ''ServerSocket::handle_connection(): Error reading data. Message: %s''),
                 (Error, ''ServerSocket::handle_connection(): Error reading data. Message: %s''),
                 (Error, ''ServerSocket::handle_connection(): Error reading data. Message: %s'')]\<rparr>)"
proof -
  let ?msg = "''ServerSocket::handle_connection(): Error reading data. Message: %s''"
  let ?c0 = "connected [Fail bad_descriptor, Fail bad_descriptor, Fail bad_descriptor, Fail eof] :: unit conn"
  let ?c1 = "(connected [Fail bad_descriptor, Fail bad_descriptor, Fail eof])\<lparr>status := ''iwait'', logged := [(Error, ?msg)]\<rparr> :: unit conn"
  let ?c2 = "(connected [Fail bad_descriptor, Fail eof])\<lparr>status := ''iwait'', logged := [(Error, ?msg), (Error, ?msg)]\<rparr> :: unit conn"
  let ?c3 = "(connected [Fail eof])\<lparr>status := ''iwait'', logged := [(Error, ?msg), (Error, ?msg), (Error, ?msg)]\<rparr> :: unit conn"
  have n: "no_terminator []" by (simp add: no_terminator_def)
  have d: "bad_descriptor \<noteq> eof \<and> bad_descriptor \<noteq> connection_reset \<and> bad_descriptor \<noteq> not_connected"
    by simp
  have "handle_connection_loop echo_hook [] ?c0 = handle_connection_loop echo_hook [] ?c1"
    using read_error_is_logged_and_loop_goes_on
      [of bad_descriptor "[]" ?c0 "[Fail bad_descriptor, Fail bad_descriptor, Fail eof]" echo_hook] n d
    by (simp add: connected_def log_msg_def)
  also have "\<dots> = handle_connection_loop echo_hook [] ?c2"
    using read_error_is_logged_and_loop_goes_on
      [of bad_descriptor "[]" ?c1 "[Fail bad_descriptor, Fail eof]" echo_hook] n d
    by (simp add: connected_def log_msg_def)
  also have "\<dots> = handle_connection_loop echo_hook [] ?c3"
    using read_error_is_logged_and_loop_goes_on
      [of bad_descriptor "[]" ?c2 "[Fail eof]" echo_hook] n d
    by (simp add: connected_def log_msg_def)
  also have "\<dots> = (Returns (), [], ?c3\<lparr>status := ''iwait'', wire_in := []\<rparr>)"
    using read_error_is_logged_and_loop_goes_on [of eof "[]" ?c3 "[]" echo_hook] n
    by (simp add: connected_def)
  finally show ?thesis
    by (simp add: connected_def)
qed

text \<open>
  C2. The claim is that a transport error other than \<open>eof\<close>, \<open>connection_reset\<close> and
  \<open>not_connected\<close> is logged at error level and ends the read loop. The code logs it and
  does not end the loop: the last branch of the \<^verbatim>\<open>catch\<close> clause has no \<^verbatim>\<open>break\<close>, unlike
  the three branches before it, so \<^verbatim>\<open>while (true)\<close> starts its next pass. Three reads
  failing with \<open>bad_descriptor\<close> give three entries in the log and three further reads,
  and the loop ends only when a read fails with \<open>eof\<close>; after a read failing with
  \<open>operation_aborted\<close> the connection is resumed and a later line is still delivered.
  The comment above \<^verbatim>\<open>SetCloseAndDelete\<close> says that \<^verbatim>\<open>handle_connection\<close> notices the closed
  socket and exits its loop.
\<close>

theorem read_error_does_not_end_loop:
  "(handle_connection_loop echo_hook []
     (connected [Fail bad_descriptor, Fail bad_descriptor, Fail bad_descriptor, Fail eof]) =
   (Returns (), [],
    (connected [])\<lparr>status := ''iwait'',
      logged := [(Error, ''ServerSocket::handle_connection(): Error reading data. Message: %s''),
                 (Error, ''ServerSocket::handle_connection(): Error reading data. Message: %s''),
                 (Error, ''ServerSocket::handle_connection(): Error reading data. Message: %s'')]\<rparr>)) \<and>
   (handle_connection_loop echo_hook []
      (connected [Fail operation_aborted, Data [0x68, 0x69, 0x0A], Fail eof]) =
    (Returns (), [],
     (connected [])\<lparr>status := ''iwait'', sent := [0x68, 0x69],
       logged := [(Error, ''ServerSocket::handle_connection(): Error reading data. Message: %s'')]\<rparr>))"
  by (rule conjI [OF failing_reads_are_retried read_error_then_line])


section \<open>Properties of the connection registry\<close>

lemma ServerSocket_dtor_Some:
  assumes "ServerSocket_dtor closing this w = Some w'"
  shows "sock_list w' = sock_list w - {this} \<and> dom (objs w') = dom (objs w) \<and> this \<in> dom (objs w)"
proof -
  from assms obtain c where c: "objs w this = Some c"
    by (cases "objs w this") (auto simp: ServerSocket_dtor_def)
  let ?c = "log_msg Debug ''ServerSocket::~ServerSocket()'' (c\<lparr>status := ''close''\<rparr>)"
  from assms c obtain c1 where "SetCloseAndDelete closing ?c = Some c1"
    and w': "w' = rem_sock this (w\<lparr>objs := (objs w)(this \<mapsto> c1\<lparr>socket := None\<rparr>)\<rparr>)"
    by (cases "SetCloseAndDelete closing ?c") (auto simp: ServerSocket_dtor_def Let_def)
  from w' c show ?thesis
    by (auto simp: rem_sock_def)
qed

lemma delete_ServerSocket_Some:
  assumes "delete_ServerSocket closing this w = Some w'"
  shows "sock_list w' = sock_list w - {this} \<and> dom (objs w') = dom (objs w) - {this}"
proof -
  from assms obtain w1 where d: "ServerSocket_dtor closing this w = Some w1"
    and w': "w' = w1\<lparr>objs := (objs w1)(this := None)\<rparr>"
    by (cases "ServerSocket_dtor closing this w") (auto simp: delete_ServerSocket_def)
  from ServerSocket_dtor_Some [OF d] w' show ?thesis by auto
qed

lemma step_registry:
  assumes "step fresh ev w = Some w'"
  shows "sock_list w' =
           (case ev of Create this now \<Rightarrow> insert this (sock_list w)
                     | Install this sock \<Rightarrow> sock_list w
                     | Delete this closing \<Rightarrow> sock_list w - {this}) \<and>
         dom (objs w') =
           (case ev of Create this now \<Rightarrow> insert this (dom (objs w))
                     | Install this sock \<Rightarrow> dom (objs w)
                     | Delete this closing \<Rightarrow> dom (objs w) - {this})"
proof (cases ev)
  case (Create this now)
  with assms show ?thesis
    by (auto simp: step_def ServerSocket_ctor_def add_sock_def split: if_splits)
next
  case (Install this sock)
  with assms show ?thesis
    by (auto simp: step_def split: option.splits if_splits)
next
  case (Delete this closing)
  with assms have "delete_ServerSocket closing this w = Some w'"
    by (simp add: step_def)
  from delete_ServerSocket_Some [OF this] Delete show ?thesis by simp
qed

lemma run_alive:
  "run fresh evs w = Some w' \<Longrightarrow> (a \<in> sock_list w' \<longleftrightarrow> alive a (a \<in> sock_list w) evs)"
proof (induction evs arbitrary: w)
  case Nil
  then show ?case by simp
next
  case (Cons ev evs)
  from Cons.prems obtain w1 where s: "step fresh ev w = Some w1" and r: "run fresh evs w1 = Some w'"
    by (cases "step fresh ev w") auto
  have ih: "a \<in> sock_list w' \<longleftrightarrow> alive a (a \<in> sock_list w1) evs"
    by (rule Cons.IH [OF r])
  show ?case
  proof (cases ev)
    case (Create this now)
    with step_registry [OF s] have "(a \<in> sock_list w1) = (a \<in> sock_list w \<or> this = a)" by auto
    with ih Create show ?thesis by simp
  next
    case (Install this sock)
    with step_registry [OF s] have "sock_list w1 = sock_list w" by simp
    with ih Install show ?thesis by simp
  next
    case (Delete this closing)
    with step_registry [OF s] have "(a \<in> sock_list w1) = (a \<in> sock_list w \<and> this \<noteq> a)" by auto
    with ih Delete show ?thesis by simp
  qed
qed

lemma run_registry_is_heap:
  "run fresh evs w = Some w' \<Longrightarrow> sock_list w = dom (objs w) \<Longrightarrow> finite (sock_list w) \<Longrightarrow>
   sock_list w' = dom (objs w') \<and> finite (sock_list w')"
proof (induction evs arbitrary: w)
  case Nil
  then show ?case by simp
next
  case (Cons ev evs)
  from Cons.prems(1) obtain w1 where s: "step fresh ev w = Some w1" and r: "run fresh evs w1 = Some w'"
    by (cases "step fresh ev w") auto
  from step_registry [OF s] Cons.prems(2,3)
  have a: "sock_list w1 = dom (objs w1)" and b: "finite (sock_list w1)"
    by (cases ev; simp)+
  show ?case by (rule Cons.IH [OF r a b])
qed

lemma display_rows_grows:
  "display_rows strftime heap hdr rc xs = Some s \<Longrightarrow> length rc \<le> length s"
proof (induction xs arbitrary: hdr rc)
  case Nil
  then show ?case by simp
next
  case (Cons ss rest)
  from Cons.prems obtain c where c: "heap ss = Some c"
    by (cases "heap ss") auto
  let ?rc = "(if \<not> hdr then rc @ connection_header @ [CHR 0x0A] else rc) @
             connection_stats strftime c @ [CHR 0x0A]"
  from Cons.prems c have "display_rows strftime heap True ?rc rest = Some s"
    by (simp add: Let_def)
  from Cons.IH [OF this] show ?case by (simp split: if_splits)
qed

lemma display_rows_nonempty:
  assumes "display_rows strftime heap hdr rc (ss # rest) = Some s"
  shows "s \<noteq> []"
proof -
  from assms obtain c where c: "heap ss = Some c"
    by (cases "heap ss") auto
  let ?rc = "(if \<not> hdr then rc @ connection_header @ [CHR 0x0A] else rc) @
             connection_stats strftime c @ [CHR 0x0A]"
  from assms c have "display_rows strftime heap True ?rc rest = Some s"
    by (simp add: Let_def)
  from display_rows_grows [OF this] show ?thesis
    by (cases s) simp_all
qed

lemma display_stats_empty_iff:
  assumes "finite (sock_list w)"
  shows "display_stats strftime w = Some [] \<longleftrightarrow> sock_list w = {}"
proof
  assume "sock_list w = {}"
  then show "display_stats strftime w = Some []"
    by (simp add: display_stats_def)
next
  assume d: "display_stats strftime w = Some []"
  show "sock_list w = {}"
  proof (rule ccontr)
    assume "sock_list w \<noteq> {}"
    with assms have "sorted_list_of_set (sock_list w) \<noteq> []"
      by simp
    then obtain ss rest where "sorted_list_of_set (sock_list w) = ss # rest"
      by (cases "sorted_list_of_set (sock_list w)") auto
    with d have "display_rows strftime (objs w) False [] (ss # rest) = Some []"
      by (simp add: display_stats_def)
    from display_rows_nonempty [OF this] show False by simp
  qed
qed


lemma run_append:
  "run fresh (xs @ ys) w = (case run fresh xs w of None \<Rightarrow> None | Some w1 \<Rightarrow> run fresh ys w1)"
  by (induction xs arbitrary: w) (auto split: option.splits)

lemma run_creates:
  assumes "distinct addrs" and "set addrs \<inter> dom (objs w) = {}"
  shows "\<exists>w1. run fresh (map (\<lambda>a. Create a (now a)) addrs) w = Some w1 \<and>
              dom (objs w1) = dom (objs w) \<union> set addrs"
  using assms
proof (induction addrs arbitrary: w)
  case Nil
  then show ?case by simp
next
  case (Cons a addrs)
  from Cons.prems(2) have free: "objs w a = None" by auto
  let ?w = "ServerSocket_ctor fresh (now a) a w"
  have s: "step fresh (Create a (now a)) w = Some ?w"
    using free by (simp add: step_def)
  have d: "dom (objs ?w) = insert a (dom (objs w))"
    by (auto simp: ServerSocket_ctor_def add_sock_def)
  from Cons.prems d have "distinct addrs" "set addrs \<inter> dom (objs ?w) = {}"
    by auto
  from Cons.IH [OF this] obtain w1
    where "run fresh (map (\<lambda>a. Create a (now a)) addrs) ?w = Some w1"
      and "dom (objs w1) = dom (objs ?w) \<union> set addrs"
    by blast
  with s d show ?case by auto
qed

lemma run_installs:
  assumes "set addrs \<subseteq> dom (objs w)"
  shows "\<exists>w1. run fresh (map (\<lambda>a. Install a (sock a)) addrs) w = Some w1 \<and>
              dom (objs w1) = dom (objs w) \<and>
              (\<forall>a. a \<in> set addrs \<or> has_socket w a \<longrightarrow> has_socket w1 a)"
  using assms
proof (induction addrs arbitrary: w)
  case Nil
  then show ?case by simp
next
  case (Cons a addrs)
  from Cons.prems obtain c where c: "objs w a = Some c" by auto
  let ?w = "w\<lparr>objs := (objs w)(a \<mapsto> set_connection (sock a) c)\<rparr>"
  have s: "step fresh (Install a (sock a)) w = Some ?w"
    using c by (simp add: step_def)
  have d: "dom (objs ?w) = dom (objs w)"
    using c by auto
  have h: "has_socket ?w b" if "b = a \<or> has_socket w b" for b
    using that by (auto simp: has_socket_def set_connection_def)
  from Cons.prems d have "set addrs \<subseteq> dom (objs ?w)" by simp
  from Cons.IH [OF this] obtain w1
    where r: "run fresh (map (\<lambda>a. Install a (sock a)) addrs) ?w = Some w1"
      and d1: "dom (objs w1) = dom (objs ?w)"
      and h1: "\<And>b. b \<in> set addrs \<or> has_socket ?w b \<Longrightarrow> has_socket w1 b"
    by blast
  have "has_socket w1 b" if "b \<in> set (a # addrs) \<or> has_socket w b" for b
    using that h [of b] h1 [of b] by auto
  with s r d d1 show ?case by auto
qed

lemma delete_ServerSocket_ok:
  assumes "has_socket w a"
  shows "\<exists>w'. delete_ServerSocket closing a w = Some w' \<and> (\<forall>b. b \<noteq> a \<longrightarrow> objs w' b = objs w b)"
proof -
  from assms obtain c s where c: "objs w a = Some c" "socket c = Some s"
    by (auto simp: has_socket_def)
  let ?c = "log_msg Debug ''ServerSocket::~ServerSocket()'' (c\<lparr>status := ''close''\<rparr>)"
  have "socket (log_msg Debug ''ServerSocket::SetCloseAndDelete()'' ?c) = Some s"
    using c(2) by (simp add: log_msg_def)
  then have "\<exists>c1. SetCloseAndDelete closing ?c = Some c1"
    by (cases closing) (simp_all add: SetCloseAndDelete_def Let_def)
  then obtain c1 where "SetCloseAndDelete closing ?c = Some c1" ..
  with c(1) show ?thesis
    by (simp add: delete_ServerSocket_def ServerSocket_dtor_def Let_def rem_sock_def)
qed

lemma run_deletes:
  assumes "distinct order" and "\<forall>a \<in> set order. has_socket w a"
  shows "\<exists>w1. run fresh (map (\<lambda>a. Delete a (closing a)) order) w = Some w1 \<and>
              dom (objs w1) = dom (objs w) - set order"
  using assms
proof (induction order arbitrary: w)
  case Nil
  then show ?case by simp
next
  case (Cons a order)
  from Cons.prems(2) have "has_socket w a" by simp
  from delete_ServerSocket_ok [OF this] obtain w'
    where d: "delete_ServerSocket (closing a) a w = Some w'"
      and o: "\<And>b. b \<noteq> a \<Longrightarrow> objs w' b = objs w b"
    by blast
  have s: "step fresh (Delete a (closing a)) w = Some w'"
    using d by (simp add: step_def)
  from delete_ServerSocket_Some [OF d] have dm: "dom (objs w') = dom (objs w) - {a}" by simp
  have "\<forall>b \<in> set order. has_socket w' b"
  proof
    fix b
    assume b: "b \<in> set order"
    with Cons.prems(1) have "b \<noteq> a" by auto
    from o [OF this] Cons.prems(2) b show "has_socket w' b"
      by (simp add: has_socket_def)
  qed
  with Cons.prems(1) have "\<exists>w1. run fresh (map (\<lambda>a. Delete a (closing a)) order) w' = Some w1 \<and>
              dom (objs w1) = dom (objs w') - set order"
    by (intro Cons.IH) simp_all
  then obtain w1 where "run fresh (map (\<lambda>a. Delete a (closing a)) order) w' = Some w1"
    and "dom (objs w1) = dom (objs w') - set order"
    by blast
  with s dm show ?case by auto
qed

lemma create_then_close:
  assumes "distinct addrs" and "set order = set addrs" and "distinct order"
  shows "\<exists>w. run fresh (map (\<lambda>a. Create a (now a)) addrs @ map (\<lambda>a. Install a (sock a)) addrs @
                         map (\<lambda>a. Delete a (closing a)) order) empty_world = Some w \<and>
             sock_list w = {} \<and> dom (objs w) = {}"
proof -
  let ?evs = "map (\<lambda>a. Create a (now a)) addrs @ map (\<lambda>a. Install a (sock a)) addrs @
              map (\<lambda>a. Delete a (closing a)) order"
  have "set addrs \<inter> dom (objs (empty_world :: 'a world)) = {}"
    by (simp add: empty_world_def)
  from run_creates [OF assms(1) this, of fresh now] obtain w1 :: "'a world"
    where r1: "run fresh (map (\<lambda>a. Create a (now a)) addrs) empty_world = Some w1"
      and d1: "dom (objs w1) = set addrs"
    by (auto simp: empty_world_def)
  from d1 have "set addrs \<subseteq> dom (objs w1)" by simp
  from run_installs [OF this, of fresh sock] obtain w2
    where r2: "run fresh (map (\<lambda>a. Install a (sock a)) addrs) w1 = Some w2"
      and d2: "dom (objs w2) = dom (objs w1)"
      and h2: "\<And>a. a \<in> set addrs \<Longrightarrow> has_socket w2 a"
    by blast
  from h2 assms(2) have "\<forall>a \<in> set order. has_socket w2 a" by simp
  from run_deletes [OF assms(3) this, of fresh closing] obtain w3
    where r3: "run fresh (map (\<lambda>a. Delete a (closing a)) order) w2 = Some w3"
      and d3: "dom (objs w3) = dom (objs w2) - set order"
    by blast
  have r: "run fresh ?evs empty_world = Some w3"
    by (simp add: run_append r1 r2 r3)
  have "sock_list w3 = dom (objs w3)"
    using run_registry_is_heap [OF r] by (simp add: empty_world_def)
  with d3 d2 d1 assms(2) r show ?thesis by simp
qed


subsection \<open>Claim C9: membership in the registry\<close>

text \<open>
  C9, with the constructor, \<^verbatim>\<open>set_connection\<close> and \<^verbatim>\<open>delete\<close> as atomic steps. After
  any sequence of these steps from the empty process state, an address is in the
  registry exactly when a connection was constructed there and its destructor has
  not run since; the registry is the set of the objects that exist; and
  \<^verbatim>\<open>display_stats\<close> returns the empty string exactly when the registry is empty.
  Consequently, after \<open>N \<ge> 1\<close> connections have been created at distinct addresses,
  given their sockets and then deleted in any order, every step being defined, the
  registry is empty and \<^verbatim>\<open>display_stats\<close> returns the empty string.
\<close>

theorem registry_membership:
  "(run fresh evs empty_world = Some w \<longrightarrow>
      (a \<in> sock_list w \<longleftrightarrow> alive a False evs) \<and> sock_list w = dom (objs w) \<and>
      (display_stats strftime w = Some [] \<longleftrightarrow> sock_list w = {})) \<and>
   (addrs \<noteq> [] \<and> distinct addrs \<and> set order = set addrs \<and> distinct order \<longrightarrow>
      (\<exists>w'. run fresh (map (\<lambda>a. Create a (now a)) addrs @
                        map (\<lambda>a. Install a (sock a)) addrs @
                        map (\<lambda>a. Delete a (closing a)) order) empty_world = Some w' \<and>
            sock_list w' = {} \<and> display_stats strftime w' = Some []))"
proof (intro conjI impI)
  assume r: "run fresh evs empty_world = Some w"
  show "a \<in> sock_list w \<longleftrightarrow> alive a False evs"
    using run_alive [OF r, of a] by (simp add: empty_world_def)
  have h: "sock_list w = dom (objs w) \<and> finite (sock_list w)"
    by (rule run_registry_is_heap [OF r]) (simp_all add: empty_world_def)
  then show "sock_list w = dom (objs w)" by simp
  from h have f: "finite (sock_list w)" ..
  show "display_stats strftime w = Some [] \<longleftrightarrow> sock_list w = {}"
    by (rule display_stats_empty_iff [OF f])
next
  assume a: "addrs \<noteq> [] \<and> distinct addrs \<and> set order = set addrs \<and> distinct order"
  then have "\<exists>w'. run fresh (map (\<lambda>a. Create a (now a)) addrs @
                        map (\<lambda>a. Install a (sock a)) addrs @
                        map (\<lambda>a. Delete a (closing a)) order) empty_world = Some w' \<and>
            sock_list w' = {} \<and> dom (objs w') = {}"
    by (intro create_then_close) simp_all
  then obtain w' where r: "run fresh (map (\<lambda>a. Create a (now a)) addrs @
                        map (\<lambda>a. Install a (sock a)) addrs @
                        map (\<lambda>a. Delete a (closing a)) order) empty_world = Some w'"
    and e: "sock_list w' = {}"
    by blast
  from e have "display_stats strftime w' = Some []"
    by (simp add: display_stats_def)
  with r e show "\<exists>w'. run fresh (map (\<lambda>a. Create a (now a)) addrs @
                        map (\<lambda>a. Install a (sock a)) addrs @
                        map (\<lambda>a. Delete a (closing a)) order) empty_world = Some w' \<and>
            sock_list w' = {} \<and> display_stats strftime w' = Some []"
    by blast
qed

theorem registry_membership_witness:
  "run (connected []) [Create 10 0] empty_world =
     Some (ServerSocket_ctor (connected []) 0 10 empty_world) \<and>
   10 \<in> sock_list (ServerSocket_ctor (connected []) 0 10 empty_world) \<and>
   alive 10 False [Create 10 0] \<and>
   display_stats (\<lambda>t. ''01 Jan 00:00:00'') (ServerSocket_ctor (connected []) 0 10 empty_world) \<noteq> Some [] \<and>
   [10, 20 :: nat] \<noteq> [] \<and> distinct [10, 20 :: nat] \<and> set [20, 10 :: nat] = set [10, 20] \<and>
   distinct [20, 10 :: nat] \<and>
   (\<exists>w. run (connected [])
          [Create 10 0, Create 20 0, Install 10 11, Install 20 21, Delete 20 None, Delete 10 None]
          empty_world = Some w \<and>
        sock_list w = {} \<and> display_stats (\<lambda>t. ''01 Jan 00:00:00'') w = Some [])"
proof -
  have r: "run (connected []) [Create 10 0] empty_world =
      Some (ServerSocket_ctor (connected []) 0 10 empty_world)"
    by (simp add: step_def empty_world_def)
  have m: "10 \<in> sock_list (ServerSocket_ctor (connected []) 0 10 empty_world)"
    by (simp add: ServerSocket_ctor_def add_sock_def)
  have p: "[10, 20 :: nat] \<noteq> [] \<and> distinct [10, 20 :: nat] \<and> set [20, 10 :: nat] = set [10, 20] \<and>
      distinct [20, 10 :: nat]"
    by auto
  note t1 = registry_membership
    [where fresh = "connected []" and evs = "[Create 10 0]"
       and w = "ServerSocket_ctor (connected []) 0 10 empty_world" and a = 10
       and strftime = "\<lambda>t. ''01 Jan 00:00:00''", THEN conjunct1, rule_format, OF r]
  note t2 = registry_membership
    [where fresh = "connected []" and addrs = "[10, 20]" and order = "[20, 10]"
       and now = "\<lambda>a. 0" and sock = "\<lambda>a. a + 1" and closing = "\<lambda>a. None"
       and strftime = "\<lambda>t. ''01 Jan 00:00:00''", THEN conjunct2, rule_format, OF p]
  from t1 m have a: "alive 10 False [Create 10 0]"
    and d: "display_stats (\<lambda>t. ''01 Jan 00:00:00'') (ServerSocket_ctor (connected []) 0 10 empty_world) \<noteq> Some []"
    by auto
  from t2 have "\<exists>w. run (connected [])
          [Create 10 0, Create 20 0, Install 10 11, Install 20 21, Delete 20 None, Delete 10 None]
          empty_world = Some w \<and>
        sock_list w = {} \<and> display_stats (\<lambda>t. ''01 Jan 00:00:00'') w = Some []"
    by simp
  with r m a d p show ?thesis by blast
qed



section \<open>Properties of the handshake\<close>

subsection \<open>base64\_encode computes the encoding of RFC 4648\<close>

text \<open>The accumulator \<^verbatim>\<open>val\<close> after one more byte, and the groups of six bits taken from it.\<close>

lemma add_byte: "push_bit 8 (v :: 32 word) + ucast (a :: byte) = push_bit 8 v OR ucast a"
  by (rule disjunctive_add) (auto simp: bit_simps dest: bit_imp_le_length)

lemma sextet_mask: "(0x3F :: 32 word) = mask 6"
  by (simp add: mask_eq_exp_minus_1)

lemma bit_3: "bit (3 :: 'a::semiring_bit_operations) n \<longleftrightarrow> possible_bit TYPE('a) n \<and> n < 2"
proof -
  have e: "(3 :: 'a) = mask 2" by (simp add: mask_numeral)
  show ?thesis by (subst e) (simp add: bit_mask_iff)
qed

lemma bit_15: "bit (15 :: 'a::semiring_bit_operations) n \<longleftrightarrow> possible_bit TYPE('a) n \<and> n < 4"
proof -
  have e: "(15 :: 'a) = mask 4" by (simp add: mask_numeral)
  show ?thesis by (subst e) (simp add: bit_mask_iff)
qed

lemma bit_63: "bit (63 :: 'a::semiring_bit_operations) n \<longleftrightarrow> possible_bit TYPE('a) n \<and> n < 6"
proof -
  have e: "(63 :: 'a) = mask 6" by (simp add: mask_numeral)
  show ?thesis by (subst e) (simp add: bit_mask_iff)
qed

lemma sextet_1: "drop_bit 2 (push_bit 8 v + ucast a) AND (0x3F :: 32 word) = ucast (drop_bit 2 (a :: byte))"
  unfolding add_byte sextet_mask
  by (rule bit_word_eqI) (auto simp: bit_simps dest: bit_imp_le_length)

lemma sextet_2: "drop_bit 4 (push_bit 8 (push_bit 8 v + ucast a) + ucast b) AND (0x3F :: 32 word) =
    ucast (push_bit 4 ((a :: byte) AND 3) OR drop_bit 4 (b :: byte))"
  unfolding add_byte sextet_mask
  apply (rule bit_word_eqI)
  apply (auto simp del: push_bit_and simp add: bit_simps bit_3 dest: bit_imp_le_length)
  done


lemma unat_ucast_byte: "unat (ucast (x :: byte) :: 32 word) = unat x"
  by (simp add: unsigned_ucast_eq take_bit_nat_eq_self_iff) (rule order_less_trans [OF unsigned_less], simp)

lemma sextet_3: "drop_bit 6 (push_bit 8 (push_bit 8 v + ucast b) + ucast c) AND (0x3F :: 32 word) =
    ucast (push_bit 2 ((b :: byte) AND 15) OR drop_bit 6 (c :: byte))"
  unfolding add_byte sextet_mask
  apply (rule bit_word_eqI)
  apply (auto simp del: push_bit_and simp add: bit_simps bit_15 dest: bit_imp_le_length)
  done

lemma sextet_4: "(push_bit 8 v + ucast c) AND (0x3F :: 32 word) = ucast ((c :: byte) AND 63)"
  unfolding add_byte sextet_mask
  apply (rule bit_word_eqI)
  apply (auto simp add: bit_simps bit_63 dest: bit_imp_le_length)
  done

lemma sextet_5: "drop_bit 4 (push_bit 8 (push_bit 8 v + ucast a)) AND (0x3F :: 32 word) =
    ucast (push_bit 4 ((a :: byte) AND 3))"
  unfolding add_byte sextet_mask
  apply (rule bit_word_eqI)
  apply (auto simp del: push_bit_and simp add: bit_simps bit_3 dest: bit_imp_le_length)
  done

lemma sextet_6: "drop_bit 6 (push_bit 8 (push_bit 8 v + ucast b)) AND (0x3F :: 32 word) =
    ucast (push_bit 2 ((b :: byte) AND 15))"
  unfolding add_byte sextet_mask
  apply (rule bit_word_eqI)
  apply (auto simp del: push_bit_and simp add: bit_simps bit_15 dest: bit_imp_le_length)
  done


lemma unat_sextet:
  "(w :: 32 word) = ucast (s :: byte) \<Longrightarrow> base64_chars ! unat w = base64_digit s"
  by (simp add: unat_ucast_byte base64_digit_def base64_chars_def base64_alphabet_def)

lemma base64_emit_done: "valb < 0 \<Longrightarrow> base64_emit val valb out = (valb, out)"
  by (simp add: base64_emit.simps)

lemma base64_emit_step:
  "0 \<le> valb \<Longrightarrow>
   base64_emit val valb out =
     base64_emit val (valb - 6) (out @ [base64_chars ! unat (drop_bit (nat valb) val AND 0x3F)])"
  by (subst base64_emit.simps) simp

lemma base64_pad_0: "length out mod 4 = 0 \<Longrightarrow> base64_pad out = out"
  by (simp add: base64_pad.simps)

lemma base64_pad_3: "length out mod 4 = 3 \<Longrightarrow> base64_pad out = out @ ''=''"
proof -
  assume a: "length out mod 4 = 3"
  then have "length (out @ ''='') mod 4 = 0" by (simp add: mod_Suc)
  then have "base64_pad (out @ ''='') = out @ ''=''" by (rule base64_pad_0)
  with a show ?thesis by (subst base64_pad.simps) simp
qed

lemma base64_pad_2: "length out mod 4 = 2 \<Longrightarrow> base64_pad out = out @ ''==''"
proof -
  assume a: "length out mod 4 = 2"
  then have "length (out @ ''='') mod 4 = 3" by (simp add: mod_Suc)
  then have "base64_pad (out @ ''='') = (out @ ''='') @ ''=''" by (rule base64_pad_3)
  with a show ?thesis by (subst base64_pad.simps) simp
qed

text \<open>One byte taken by the outer loop in each of its three phases.\<close>

lemma base64_loop_phase0:
  "base64_loop val (-6) out (a # buf) =
     base64_loop (push_bit 8 val + ucast a) (-4) (out @ [base64_digit (drop_bit 2 a)]) buf"
  by (simp add: Let_def base64_emit_step base64_emit_done unat_sextet [OF sextet_1])

lemma base64_loop_phase1:
  "base64_loop (push_bit 8 v + ucast a) (-4) out (b # buf) =
     base64_loop (push_bit 8 (push_bit 8 v + ucast a) + ucast b) (-2)
       (out @ [base64_digit (push_bit 4 (a AND 3) OR drop_bit 4 b)]) buf"
  by (simp add: Let_def base64_emit_step base64_emit_done unat_sextet [OF sextet_2])

lemma base64_loop_phase2:
  "base64_loop (push_bit 8 v + ucast b) (-2) out (c # buf) =
     base64_loop (push_bit 8 (push_bit 8 v + ucast b) + ucast c) (-6)
       (out @ [base64_digit (push_bit 2 (b AND 15) OR drop_bit 6 c), base64_digit (c AND 63)]) buf"
  by (simp add: Let_def base64_emit_step base64_emit_done unat_sextet [OF sextet_3] unat_sextet [OF sextet_4])

text \<open>What \<^verbatim>\<open>base64_encode\<close> does after its loop.\<close>

definition base64_finish :: "32 word \<times> int \<times> string \<Rightarrow> string" where
  "base64_finish st =
     (case st of (val, valb, out) \<Rightarrow>
        base64_pad (if valb > -6
                    then out @ [base64_chars ! unat (drop_bit (nat (valb + 8)) (push_bit 8 val) AND 0x3F)]
                    else out))"

lemma base64_encode_finish: "base64_encode buf = base64_finish (base64_loop 0 (-6) [] buf)"
  by (simp add: base64_encode_def base64_finish_def Let_def split: prod.splits)

lemma base64_loop_rfc4648:
  "length out mod 4 = 0 \<Longrightarrow>
   base64_finish (base64_loop val (-6) out buf) = out @ base64_rfc4648 buf"
proof (induction buf arbitrary: val out rule: base64_rfc4648.induct)
  case (1 a b c rest)
  let ?out = "out @ [base64_digit (drop_bit 2 a),
      base64_digit (push_bit 4 (a AND 3) OR drop_bit 4 b),
      base64_digit (push_bit 2 (b AND 15) OR drop_bit 6 c),
      base64_digit (c AND 63)]"
  from "1.prems" have l: "length ?out mod 4 = 0" by simp
  have "base64_loop val (-6) out (a # b # c # rest) =
      base64_loop (push_bit 8 (push_bit 8 (push_bit 8 val + ucast a) + ucast b) + ucast c) (-6) ?out rest"
    by (simp only: base64_loop_phase0 base64_loop_phase1 base64_loop_phase2 append_assoc append_Cons append_Nil)
  then show ?case
    using "1.IH" [OF l] by simp
next
  case (2 a b)
  have "base64_loop val (-6) out [a, b] =
      (push_bit 8 (push_bit 8 val + ucast a) + ucast b, -2,
       out @ [base64_digit (drop_bit 2 a), base64_digit (push_bit 4 (a AND 3) OR drop_bit 4 b)])"
    unfolding base64_loop_phase0 base64_loop_phase1 by simp
  moreover from "2.prems" have "length (out @ [base64_digit (drop_bit 2 a),
      base64_digit (push_bit 4 (a AND 3) OR drop_bit 4 b), base64_digit (push_bit 2 (b AND 15))]) mod 4 = 3"
    by (simp add: mod_Suc)
  ultimately show ?case
    by (simp add: base64_finish_def unat_sextet [OF sextet_6] base64_pad_3)
next
  case (3 a)
  have "base64_loop val (-6) out [a] =
      (push_bit 8 val + ucast a, -4, out @ [base64_digit (drop_bit 2 a)])"
    unfolding base64_loop_phase0 by simp
  moreover from "3.prems" have "length (out @ [base64_digit (drop_bit 2 a),
      base64_digit (push_bit 4 (a AND 3))]) mod 4 = 2"
    by (simp add: mod_Suc)
  ultimately show ?case
    by (simp add: base64_finish_def unat_sextet [OF sextet_5] base64_pad_2)
next
  case 4
  then show ?case by (simp add: base64_finish_def base64_pad_0)
qed

lemma base64_encode_rfc4648: "base64_encode buf = base64_rfc4648 buf"
  using base64_loop_rfc4648 [of "[]" 0 buf] by (simp add: base64_encode_finish)

text \<open>The encoding on the test vectors of RFC 4648, section 10.\<close>

lemma base64_rfc4648_vectors:
  "base64_rfc4648 [] = []"
  "base64_rfc4648 (bytes_of ''f'') = ''Zg==''"
  "base64_rfc4648 (bytes_of ''fo'') = ''Zm8=''"
  "base64_rfc4648 (bytes_of ''foo'') = ''Zm9v''"
  "base64_rfc4648 (bytes_of ''foob'') = ''Zm9vYg==''"
  "base64_rfc4648 (bytes_of ''fooba'') = ''Zm9vYmE=''"
  "base64_rfc4648 (bytes_of ''foobar'') = ''Zm9vYmFy''"
  by code_simp+

subsection \<open>The hook and the reply\<close>

lemma send_all_ok:
  "socket c \<noteq> None \<Longrightarrow> write_error c = None \<Longrightarrow>
   send_all outs c = (Returns (), c\<lparr>sent := sent c @ concat outs\<rparr>)"
proof (induction outs arbitrary: c)
  case Nil
  then show ?case by simp
next
  case (Cons cmd outs)
  let ?c1 = "c\<lparr>sent := sent c @ cmd\<rparr>"
  from Cons.prems have s: "Send cmd c = (Returns (), ?c1)" by (rule Send_ok)
  from Cons.prems have "send_all outs ?c1 = (Returns (), ?c1\<lparr>sent := sent ?c1 @ concat outs\<rparr>)"
    by (intro Cons.IH) simp_all
  with s show ?case by simp
qed

lemma run_hook_ok:
  "socket c \<noteq> None \<Longrightarrow> write_error c = None \<Longrightarrow>
   run_hook (r, u, outs) c = (r, c\<lparr>app := u, sent := sent c @ concat outs\<rparr>)"
  by (simp add: run_hook_def send_all_ok)

lemma HandshakeLine_reply:
  assumes f: "got_first_line c" and h: "got_http_header c \<or> line = []"
    and w: "got_websock_header c" and s: "socket c \<noteq> None" and e: "write_error c = None"
    and o: "OnConnection (c\<lparr>got_http_header := True\<rparr>) = (Returns (), u, outs)"
  shows "HandshakeLine OnConnection line c =
     (Returns (),
      c\<lparr>got_http_header := True, app := u, webkey := webkey c @ websocket_guid,
        sent := sent c @ concat outs @
                bytes_of (switching_protocols
                            (base64_encode (SHA1 (bytes_of (webkey c @ websocket_guid))))),
        do_frame_io := True\<rparr>)"
proof -
  let ?c0 = "c\<lparr>got_http_header := True\<rparr>"
  from h have c0: "(if \<not> got_http_header c \<and> length line = 0 then ?c0 else c) = ?c0"
    by auto
  from s e have r: "run_hook (Returns (), u, outs) ?c0 =
      (Returns (), ?c0\<lparr>app := u, sent := sent ?c0 @ concat outs\<rparr>)"
    by (intro run_hook_ok) simp_all
  from f w s e show ?thesis
    unfolding HandshakeLine_def Let_def c0
    by (simp add: o r Send_ok)
qed

lemma HandshakeLine_key:
  assumes "got_first_line c" and "\<not> got_http_header c"
  shows "HandshakeLine OnConnection (''Sec-WebSocket-Key: '' @ key) c = (Returns (), c\<lparr>webkey := key\<rparr>)"
  using assms by (simp add: HandshakeLine_def)

subsection \<open>The accept key of the sample handshake\<close>

lemma sample_key_message:
  "bytes_of ''dGhlIHNhbXBsZSBub25jZQ==258EAFA5-E914-47DA-95CA-C5AB0DC85B11'' =
     [100, 71, 104, 108, 73, 72, 78, 104, 98, 88, 66, 115, 90, 83, 66, 117, 98,
      50, 53, 106, 90, 81, 61, 61, 50, 53, 56, 69, 65, 70, 65, 53, 45, 69, 57,
      49, 52, 45, 52, 55, 68, 65, 45, 57, 53, 67, 65, 45, 67, 53, 65, 66, 48,
      68, 67, 56, 53, 66, 49, 49]"
  by (simp add: bytes_of_def)

lemma sample_key_padded:
  "sha1_pad
     [100, 71, 104, 108, 73, 72, 78, 104, 98, 88, 66, 115, 90, 83, 66, 117, 98,
      50, 53, 106, 90, 81, 61, 61, 50, 53, 56, 69, 65, 70, 65, 53, 45, 69, 57,
      49, 52, 45, 52, 55, 68, 65, 45, 57, 53, 67, 65, 45, 67, 53, 65, 66, 48,
      68, 67, 56, 53, 66, 49, 49] =
     [100, 71, 104, 108, 73, 72, 78, 104, 98, 88, 66, 115, 90, 83, 66, 117, 98,
      50, 53, 106, 90, 81, 61, 61, 50, 53, 56, 69, 65, 70, 65, 53, 45, 69, 57,
      49, 52, 45, 52, 55, 68, 65, 45, 57, 53, 67, 65, 45, 67, 53, 65, 66, 48,
      68, 67, 56, 53, 66, 49, 49, 0x80,
      0, 0, 0, 0, 0, 0, 0, 0, 0, 0, 0, 0, 0, 0, 0, 0, 0, 0, 0, 0,
      0, 0, 0, 0, 0, 0, 0, 0, 0, 0, 0, 0, 0, 0, 0, 0, 0, 0, 0, 0,
      0, 0, 0, 0, 0, 0, 0, 0, 0, 0, 0, 0, 0, 0, 0, 0, 0, 0, 0,
      0, 0, 0, 0, 0, 0, 1, 224]"
  by code_simp

lemma sample_key_words:
  "words_be
     [100, 71, 104, 108, 73, 72, 78, 104, 98, 88, 66, 115, 90, 83, 66, 117, 98,
      50, 53, 106, 90, 81, 61, 61, 50, 53, 56, 69, 65, 70, 65, 53, 45, 69, 57,
      49, 52, 45, 52, 55, 68, 65, 45, 57, 53, 67, 65, 45, 67, 53, 65, 66, 48,
      68, 67, 56, 53, 66, 49, 49, 0x80,
      0, 0, 0, 0, 0, 0, 0, 0, 0, 0, 0, 0, 0, 0, 0, 0, 0, 0, 0, 0,
      0, 0, 0, 0, 0, 0, 0, 0, 0, 0, 0, 0, 0, 0, 0, 0, 0, 0, 0, 0,
      0, 0, 0, 0, 0, 0, 0, 0, 0, 0, 0, 0, 0, 0, 0, 0, 0, 0, 0,
      0, 0, 0, 0, 0, 0, 1, 224] =
     [1682401388, 1229475432, 1649951347, 1515405941, 1647457642, 1515273533,
      842348613, 1095123253, 759511345, 875377719, 1145122105, 893600045,
      1127563586, 809780024, 893530417, 2147483648, 0, 0, 0, 0, 0, 0, 0, 0, 0,
      0, 0, 0, 0, 0, 0, 480]"
  by (simp add: ntohl_def)

lemma sample_key_block1:
  "sha1_block (0x67452301, 0xefcdab89, 0x98badcfe, 0x10325476, 0xc3d2e1f0)
     [1682401388, 1229475432, 1649951347, 1515405941, 1647457642, 1515273533,
      842348613, 1095123253, 759511345, 875377719, 1145122105, 893600045,
      1127563586, 809780024, 893530417, 2147483648] =
   (1540323111, 1931952490, 3195796473, 1517820024, 1581688034)"
  by (simp add: sha1_schedule_def rotl32_def sha1_k_def sha1_f_def)

lemma sample_key_block2:
  "sha1_block (1540323111, 1931952490, 3195796473, 1517820024, 1581688034)
     [0, 0, 0, 0, 0, 0, 0, 0, 0, 0, 0, 0, 0, 0, 0, 480] =
   (3011137324, 3227668246, 2432058886, 3476576581, 2998846698)"
  by (simp add: sha1_schedule_def rotl32_def sha1_k_def sha1_f_def)

lemma sample_key_blocks:
  "sha1_blocks (0x67452301, 0xefcdab89, 0x98badcfe, 0x10325476, 0xc3d2e1f0)
     [1682401388, 1229475432, 1649951347, 1515405941, 1647457642, 1515273533,
      842348613, 1095123253, 759511345, 875377719, 1145122105, 893600045,
      1127563586, 809780024, 893530417, 2147483648, 0, 0, 0, 0, 0, 0, 0, 0, 0,
      0, 0, 0, 0, 0, 0, 480] =
   (3011137324, 3227668246, 2432058886, 3476576581, 2998846698)"
  apply (subst sha1_blocks.simps)
  apply (simp del: sha1_block.simps add: sample_key_block1)
  apply (subst sha1_blocks.simps)
  apply (simp del: sha1_block.simps add: sample_key_block2)
  apply (subst sha1_blocks.simps)
  apply simp
  done

lemma sample_key_digest:
  "SHA1 (bytes_of ''dGhlIHNhbXBsZSBub25jZQ==258EAFA5-E914-47DA-95CA-C5AB0DC85B11'') =
     [179, 122, 79, 44, 192, 98, 79, 22, 144, 246, 70, 6, 207, 56, 89, 69, 178,
      190, 196, 234]"
  unfolding SHA1_def sample_key_message sample_key_padded sample_key_words sample_key_blocks
  by (simp add: be_bytes_def)

lemma sample_key_base64:
  "base64_rfc4648
     [179, 122, 79, 44, 192, 98, 79, 22, 144, 246, 70, 6, 207, 56, 89, 69, 178,
      190, 196, 234] = ''s3pPLMBiTxaQ9kYGzzhZRbK+xOo=''"
  by code_simp

text \<open>
  The model of \<^verbatim>\<open>SHA1\<close> on the first test vector of FIPS 180: the digest of the three
  bytes \<open>abc\<close> is \<open>a9993e36 4706816a ba3e2571 7850c26c 9cd0d89d\<close>.
\<close>

lemma abc_block:
  "sha1_block (0x67452301, 0xefcdab89, 0x98badcfe, 0x10325476, 0xc3d2e1f0)
     [0x61626380, 0, 0, 0, 0, 0, 0, 0, 0, 0, 0, 0, 0, 0, 0, 24] =
   (0xa9993e36, 0x4706816a, 0xba3e2571, 0x7850c26c, 0x9cd0d89d)"
  by (simp add: sha1_schedule_def rotl32_def sha1_k_def sha1_f_def)

lemma abc_words:
  "words_be (sha1_pad (bytes_of ''abc'')) =
     [0x61626380, 0, 0, 0, 0, 0, 0, 0, 0, 0, 0, 0, 0, 0, 0, 24]"
  by code_simp

lemma SHA1_abc:
  "SHA1 (bytes_of ''abc'') =
     [0xa9, 0x99, 0x3e, 0x36, 0x47, 0x06, 0x81, 0x6a, 0xba, 0x3e,
      0x25, 0x71, 0x78, 0x50, 0xc2, 0x6c, 0x9c, 0xd0, 0xd8, 0x9d]"
proof -
  have "sha1_blocks (0x67452301, 0xefcdab89, 0x98badcfe, 0x10325476, 0xc3d2e1f0)
          [0x61626380, 0, 0, 0, 0, 0, 0, 0, 0, 0, 0, 0, 0, 0, 0, 24] =
        (0xa9993e36, 0x4706816a, 0xba3e2571, 0x7850c26c, 0x9cd0d89d)"
    apply (subst sha1_blocks.simps)
    apply (simp del: sha1_block.simps add: abc_block)
    apply (subst sha1_blocks.simps)
    apply simp
    done
  then show ?thesis
    unfolding SHA1_def abc_words by (simp add: be_bytes_def)
qed

subsection \<open>Claim C5: the accept key of the handshake\<close>

text \<open>
  C5. The line \<^verbatim>\<open>Sec-WebSocket-Key: \<close> followed by a key, received inside the header,
  stores that key. When the line that completes the HTTP header arrives on a
  connection that has seen its first line and the \<^verbatim>\<open>Upgrade: websocket\<close> line, whose
  socket is installed and whose peer accepts the writes, and \<^verbatim>\<open>OnConnection\<close> returns,
  \<^verbatim>\<open>HandshakeLine\<close> returns after having sent, behind whatever \<^verbatim>\<open>OnConnection\<close> sent,
  exactly the response
  \<^verbatim>\<open>HTTP/1.1 101 Switching Protocols\<close>, \<^verbatim>\<open>Upgrade: websocket\<close>, \<^verbatim>\<open>Connection: Upgrade\<close>,
  \<^verbatim>\<open>Sec-WebSocket-Accept: \<close> and the accept value, each line ended by CR LF, and an
  empty line. The accept value is the base64 encoding, as RFC 4648 defines it, of
  the SHA-1 digest of the stored key followed by
  \<open>258EAFA5-E914-47DA-95CA-C5AB0DC85B11\<close>; the connection is then in frame mode. For
  the key \<open>dGhlIHNhbXBsZSBub25jZQ==\<close> the accept value is exactly
  \<open>s3pPLMBiTxaQ9kYGzzhZRbK+xOo=\<close>. (\<^verbatim>\<open>SHA1\<close> gives the digest of FIPS 180 on the
  standard's vector \<open>abc\<close>.)
\<close>

theorem handshake_accept_key:
  "(got_first_line c \<and> (got_http_header c \<or> line = []) \<and> got_websock_header c \<and>
    socket c \<noteq> None \<and> write_error c = None \<and>
    OnConnection (c\<lparr>got_http_header := True\<rparr>) = (Returns (), u, outs) \<longrightarrow>
    HandshakeLine OnConnection line c =
      (Returns (),
       c\<lparr>got_http_header := True, app := u,
         webkey := webkey c @ ''258EAFA5-E914-47DA-95CA-C5AB0DC85B11'',
         sent := sent c @ concat outs @
                 bytes_of (''HTTP/1.1 101 Switching Protocols'' @ [CHR 0x0D, CHR 0x0A] @
                          ''Upgrade: websocket'' @ [CHR 0x0D, CHR 0x0A] @
                          ''Connection: Upgrade'' @ [CHR 0x0D, CHR 0x0A] @
                          ''Sec-WebSocket-Accept: '' @
                          base64_rfc4648
                            (SHA1 (bytes_of (webkey c @ ''258EAFA5-E914-47DA-95CA-C5AB0DC85B11''))) @
                          [CHR 0x0D, CHR 0x0A, CHR 0x0D, CHR 0x0A]),
         do_frame_io := True\<rparr>)) \<and>
   (got_first_line c \<and> \<not> got_http_header c \<longrightarrow>
    HandshakeLine OnConnection (''Sec-WebSocket-Key: '' @ key) c = (Returns (), c\<lparr>webkey := key\<rparr>)) \<and>
   base64_rfc4648 (SHA1 (bytes_of ''dGhlIHNhbXBsZSBub25jZQ==258EAFA5-E914-47DA-95CA-C5AB0DC85B11'')) =
     ''s3pPLMBiTxaQ9kYGzzhZRbK+xOo='' \<and>
   SHA1 (bytes_of ''abc'') =
     [0xa9, 0x99, 0x3e, 0x36, 0x47, 0x06, 0x81, 0x6a, 0xba, 0x3e,
      0x25, 0x71, 0x78, 0x50, 0xc2, 0x6c, 0x9c, 0xd0, 0xd8, 0x9d]"
proof (intro conjI impI)
  assume "got_first_line c \<and> (got_http_header c \<or> line = []) \<and> got_websock_header c \<and>
    socket c \<noteq> None \<and> write_error c = None \<and>
    OnConnection (c\<lparr>got_http_header := True\<rparr>) = (Returns (), u, outs)"
  then have "HandshakeLine OnConnection line c =
     (Returns (),
      c\<lparr>got_http_header := True, app := u, webkey := webkey c @ websocket_guid,
        sent := sent c @ concat outs @
                bytes_of (switching_protocols
                            (base64_encode (SHA1 (bytes_of (webkey c @ websocket_guid))))),
        do_frame_io := True\<rparr>)"
    by (elim conjE) (rule HandshakeLine_reply)
  then show "HandshakeLine OnConnection line c =
      (Returns (),
       c\<lparr>got_http_header := True, app := u,
         webkey := webkey c @ ''258EAFA5-E914-47DA-95CA-C5AB0DC85B11'',
         sent := sent c @ concat outs @
                 bytes_of (''HTTP/1.1 101 Switching Protocols'' @ [CHR 0x0D, CHR 0x0A] @
                          ''Upgrade: websocket'' @ [CHR 0x0D, CHR 0x0A] @
                          ''Connection: Upgrade'' @ [CHR 0x0D, CHR 0x0A] @
                          ''Sec-WebSocket-Accept: '' @
                          base64_rfc4648
                            (SHA1 (bytes_of (webkey c @ ''258EAFA5-E914-47DA-95CA-C5AB0DC85B11''))) @
                          [CHR 0x0D, CHR 0x0A, CHR 0x0D, CHR 0x0A]),
         do_frame_io := True\<rparr>)"
    by (simp add: switching_protocols_def crlf_def websocket_guid_def base64_encode_rfc4648
        bytes_of_def)
next
  assume "got_first_line c \<and> \<not> got_http_header c"
  then show "HandshakeLine OnConnection (''Sec-WebSocket-Key: '' @ key) c = (Returns (), c\<lparr>webkey := key\<rparr>)"
    by (elim conjE) (rule HandshakeLine_key)
next
  show "base64_rfc4648 (SHA1 (bytes_of ''dGhlIHNhbXBsZSBub25jZQ==258EAFA5-E914-47DA-95CA-C5AB0DC85B11'')) =
     ''s3pPLMBiTxaQ9kYGzzhZRbK+xOo=''"
    unfolding sample_key_digest by (rule sample_key_base64)
next
  show "SHA1 (bytes_of ''abc'') =
     [0xa9, 0x99, 0x3e, 0x36, 0x47, 0x06, 0x81, 0x6a, 0xba, 0x3e,
      0x25, 0x71, 0x78, 0x50, 0xc2, 0x6c, 0x9c, 0xd0, 0xd8, 0x9d]"
    by (rule SHA1_abc)
qed

text \<open>
  The handshake of RFC 6455, section 1.3, line by line on a fresh connection: the
  request line, the upgrade line, the key, and the empty line that ends the header.
\<close>

theorem handshake_accept_key_witness:
  "HandshakeLine quiet_hook ''GET /chat HTTP/1.1'' (connected []) =
     (Returns (), (connected [])\<lparr>got_first_line := True, url := ''/chat''\<rparr>) \<and>
   HandshakeLine quiet_hook ''Upgrade: websocket''
       ((connected [])\<lparr>got_first_line := True, url := ''/chat''\<rparr>) =
     (Returns (),
      (connected [])\<lparr>got_first_line := True, url := ''/chat'', got_websock_header := True\<rparr>) \<and>
   HandshakeLine quiet_hook ''Sec-WebSocket-Key: dGhlIHNhbXBsZSBub25jZQ==''
       ((connected [])\<lparr>got_first_line := True, url := ''/chat'', got_websock_header := True\<rparr>) =
     (Returns (),
      (connected [])\<lparr>got_first_line := True, url := ''/chat'', got_websock_header := True,
                      webkey := ''dGhlIHNhbXBsZSBub25jZQ==''\<rparr>) \<and>
   HandshakeLine quiet_hook []
       ((connected [])\<lparr>got_first_line := True, url := ''/chat'', got_websock_header := True,
                       webkey := ''dGhlIHNhbXBsZSBub25jZQ==''\<rparr>) =
     (Returns (),
      (connected [])\<lparr>got_first_line := True, url := ''/chat'', got_websock_header := True,
                      webkey := ''dGhlIHNhbXBsZSBub25jZQ==258EAFA5-E914-47DA-95CA-C5AB0DC85B11'',
                      got_http_header := True,
                      sent := bytes_of
                        (''HTTP/1.1 101 Switching Protocols'' @ [CHR 0x0D, CHR 0x0A] @
                         ''Upgrade: websocket'' @ [CHR 0x0D, CHR 0x0A] @
                         ''Connection: Upgrade'' @ [CHR 0x0D, CHR 0x0A] @
                         ''Sec-WebSocket-Accept: s3pPLMBiTxaQ9kYGzzhZRbK+xOo='' @
                         [CHR 0x0D, CHR 0x0A, CHR 0x0D, CHR 0x0A]),
                      do_frame_io := True\<rparr>)"
proof -
  let ?c2 = "(connected [])\<lparr>got_first_line := True, url := ''/chat'', got_websock_header := True\<rparr>"
  let ?c = "(connected [])\<lparr>got_first_line := True, url := ''/chat'', got_websock_header := True,
                       webkey := ''dGhlIHNhbXBsZSBub25jZQ==''\<rparr>"
  have h: "got_first_line ?c \<and> (got_http_header ?c \<or> [] = ([] :: string)) \<and>
      got_websock_header ?c \<and> socket ?c \<noteq> None \<and> write_error ?c = None \<and>
      quiet_hook (?c\<lparr>got_http_header := True\<rparr>) = (Returns (), (), [])"
    by (simp add: connected_def quiet_hook_def)
  have k: "got_first_line ?c2 \<and> \<not> got_http_header ?c2"
    by (simp add: connected_def)
  note t = handshake_accept_key
    [where c = ?c and line = "[]" and OnConnection = quiet_hook and u = "()" and outs = "[]"]
  note a = t [THEN conjunct2, THEN conjunct2, THEN conjunct1]
  from t [THEN conjunct1, rule_format, OF h]
  have 4: "HandshakeLine quiet_hook [] ?c =
     (Returns (),
      (connected [])\<lparr>got_first_line := True, url := ''/chat'', got_websock_header := True,
                      webkey := ''dGhlIHNhbXBsZSBub25jZQ==258EAFA5-E914-47DA-95CA-C5AB0DC85B11'',
                      got_http_header := True,
                      sent := bytes_of
                        (''HTTP/1.1 101 Switching Protocols'' @ [CHR 0x0D, CHR 0x0A] @
                         ''Upgrade: websocket'' @ [CHR 0x0D, CHR 0x0A] @
                         ''Connection: Upgrade'' @ [CHR 0x0D, CHR 0x0A] @
                         ''Sec-WebSocket-Accept: s3pPLMBiTxaQ9kYGzzhZRbK+xOo='' @
                         [CHR 0x0D, CHR 0x0A, CHR 0x0D, CHR 0x0A]),
                      do_frame_io := True\<rparr>)"
    by (simp add: a connected_def)
  have 3: "HandshakeLine quiet_hook ''Sec-WebSocket-Key: dGhlIHNhbXBsZSBub25jZQ=='' ?c2 =
     (Returns (), ?c)"
    using handshake_accept_key
      [where c = ?c2 and OnConnection = quiet_hook and key = "''dGhlIHNhbXBsZSBub25jZQ==''",
       THEN conjunct2, THEN conjunct1, rule_format, OF k]
    by simp
  have 1: "HandshakeLine quiet_hook ''GET /chat HTTP/1.1'' (connected []) =
     (Returns (), (connected [])\<lparr>got_first_line := True, url := ''/chat''\<rparr>)"
    by (simp add: HandshakeLine_def connected_def)
  have 2: "HandshakeLine quiet_hook ''Upgrade: websocket''
       ((connected [])\<lparr>got_first_line := True, url := ''/chat''\<rparr>) =
     (Returns (), ?c2)"
    by (simp add: HandshakeLine_def connected_def)
  from 1 2 3 4 show ?thesis by (intro conjI)
qed

end
